theory Spec2Isabelle
  imports Main "HOL-Library.AList"
begin

section \<open>Data model\<close>

text \<open>
  The embedding follows \<^verbatim>\<open>changeClonedDependenciesTo\<close> and its helpers
  (\<^verbatim>\<open>updateDependencies\<close>, \<^verbatim>\<open>findPackage\<close>, \<^verbatim>\<open>getDependencyTargetVersion\<close>).

  A JavaScript object used as a \<^verbatim>\<open>StringMap\<close> is an association list in
  \<^verbatim>\<open>Object.keys\<close> order: assigning to an existing key keeps its position,
  assigning to a new key appends it. (Own string keys only: names that are array
  indices or properties of \<^verbatim>\<open>Object.prototype\<close> are outside the model.)
  An optional field \<^verbatim>\<open>f?: T\<close> is a \<open>T option\<close>, \<open>None\<close> being \<^verbatim>\<open>undefined\<close>.
\<close>

type_synonym 'v StringMap = "(string \<times> 'v) list"

definition hasKey :: "'v StringMap \<Rightarrow> string \<Rightarrow> bool" where
  "hasKey m k = (case map_of m k of None \<Rightarrow> False | Some _ \<Rightarrow> True)"

definition setKey :: "'v StringMap \<Rightarrow> string \<Rightarrow> 'v \<Rightarrow> 'v StringMap" where
  "setKey m k v = AList.update k v m"

definition keys :: "'v StringMap \<Rightarrow> string list" where
  "keys m = map fst m"

datatype DepedencyType = Local | Latest

record PackageFolder =
  path :: string
  runNPMInstall :: "bool option"
  defaultVersion :: "string option"
  dependenciesToIgnore :: "string list option"

record ClonedPackage = PackageFolder +
  updated :: "bool option"
  targetVersion :: "string option"

text \<open>The cache \<^verbatim>\<open>clonedPackages: StringMap\<close>: a key
  can be present and hold \<^verbatim>\<open>undefined\<close> (the package is known to be absent).\<close>

type_synonym ClonedPackages = "ClonedPackage option StringMap"

definition getClonedPackage :: "ClonedPackages \<Rightarrow> string \<Rightarrow> ClonedPackage option" where
  "getClonedPackage m k = (case map_of m k of None \<Rightarrow> None | Some v \<Rightarrow> v)"

record PackageJson =
  name :: "string option"
  dependencies :: "string StringMap option"
  devDependencies :: "string StringMap option"

type_synonym PackageLockJson = "string StringMap"

record NPMViewResult =
  dist_tags :: "string StringMap option"

datatype PackageFolderArg = PathString string | Folder PackageFolder

datatype ArgValue = ArgUndefined | ArgBoolean bool | ArgString string

record ChangeClonedDependenciesToOptions =
  recursive :: "bool option"
  forceInstall :: "bool option"
  setProcessExitCode :: "bool option"
  packageFolders :: "PackageFolderArg list option"
  extraFilesToUpdate :: "string list option"

section \<open>The outside world\<close>

text \<open>
  Files are kept parsed; reading a file as another kind than it was stored as is a
  thrown error, as is reading a file that does not exist. The run only overwrites
  files, so folders and the existence of files are fixed for a run.
\<close>

datatype FileContents =
    PackageJsonFile PackageJson
  | PackageLockJsonFile PackageLockJson
  | TextFile string

type_synonym FileSystem = "string \<Rightarrow> FileContents option"

datatype error = TypeError | IOError

definition fileExistsSync :: "FileSystem \<Rightarrow> string \<Rightarrow> bool" where
  "fileExistsSync fs filePath = (case fs filePath of None \<Rightarrow> False | Some _ \<Rightarrow> True)"

definition readPackageJsonFileSync :: "FileSystem \<Rightarrow> string \<Rightarrow> error + PackageJson" where
  "readPackageJsonFileSync fs filePath =
     (case fs filePath of Some (PackageJsonFile packageJson) \<Rightarrow> Inr packageJson | _ \<Rightarrow> Inl IOError)"

definition readPackageLockJsonFileSync :: "FileSystem \<Rightarrow> string \<Rightarrow> error + PackageLockJson" where
  "readPackageLockJsonFileSync fs filePath =
     (case fs filePath of Some (PackageLockJsonFile packageLockJson) \<Rightarrow> Inr packageLockJson | _ \<Rightarrow> Inl IOError)"

definition readFileSync :: "FileSystem \<Rightarrow> string \<Rightarrow> error + string" where
  "readFileSync fs filePath =
     (case fs filePath of Some (TextFile contents) \<Rightarrow> Inr contents | _ \<Rightarrow> Inl IOError)"

text \<open>
  The helpers imported from \<^verbatim>\<open>./path\<close>, \<^verbatim>\<open>./fileSystem2\<close>, \<^verbatim>\<open>./packageJson\<close>,
  \<^verbatim>\<open>./npm\<close>, \<^verbatim>\<open>yargs\<close> and the regular-expression engine are parameters of the
  model. \<open>getChildFolderPaths\<close> may return \<^verbatim>\<open>undefined\<close>; \<open>regExpMatch n text\<close> is the
  first capture group of \<^verbatim>\<open>\.StringProperty\("n", "(.*)"\);\<close> in \<open>text\<close>, and
  \<open>regExpReplace n v text\<close> replaces the first match by
  \<^verbatim>\<open>.StringProperty("n", "v");\<close>.
\<close>

record Env =
  normalize :: "string \<Rightarrow> string"
  getParentFolderPath :: "string \<Rightarrow> string"
  joinPath :: "string \<Rightarrow> string \<Rightarrow> string"
  folderExistsSync :: "string \<Rightarrow> bool"
  getChildFolderPaths :: "string \<Rightarrow> string list option"
  findPackageJsonFileSync :: "string \<Rightarrow> string option"
  npmView :: "string \<Rightarrow> NPMViewResult"
  npmInstall :: "string \<Rightarrow> int"
  removePackageLockJsonDependencies :: "PackageLockJson \<Rightarrow> string list \<Rightarrow> PackageLockJson"
  regExpMatch :: "string \<Rightarrow> string \<Rightarrow> string option"
  regExpReplace :: "string \<Rightarrow> string \<Rightarrow> string \<Rightarrow> string"
  argvRecursive :: ArgValue
  argvForceInstall :: ArgValue

text \<open>What the run does to the outside, in order.\<close>

datatype Event =
    NpmView string
  | LogChanging string string string
  | WritePackageJson string
  | WritePackageLockJson string
  | NpmInstall string
  | WriteFile string

text \<open>Modelled from the spec: \<^verbatim>\<open>contains\<close>, \<^verbatim>\<open>any\<close> and \<^verbatim>\<open>first\<close> of \<^verbatim>\<open>./arrays\<close> are
  not among the sources; they are membership in an array that may be undefined, the
  test for a non-empty array, and the first element satisfying a predicate.\<close>

definition contains :: "'a list option \<Rightarrow> 'a \<Rightarrow> bool" where
  "contains values v = (case values of None \<Rightarrow> False | Some xs \<Rightarrow> v \<in> set xs)"

definition any :: "'a list \<Rightarrow> bool" where
  "any values = (values \<noteq> [])"

definition first :: "'a list option \<Rightarrow> ('a \<Rightarrow> bool) \<Rightarrow> 'a option" where
  "first values condition = (case values of None \<Rightarrow> None | Some xs \<Rightarrow> find condition xs)"

text \<open>JavaScript truthiness of an optional string: defined and not empty.\<close>

definition truthy :: "string option \<Rightarrow> bool" where
  "truthy s = (case s of None \<Rightarrow> False | Some v \<Rightarrow> v \<noteq> [])"

section \<open>findPackage\<close>

definition addFolderToVisit :: "string list \<Rightarrow> string list \<Rightarrow> string \<Rightarrow> string list" where
  "addFolderToVisit visitedFolders foldersToVisit folderPath =
     (if \<not> contains (Some visitedFolders) folderPath \<and> \<not> contains (Some foldersToVisit) folderPath
      then foldersToVisit @ [folderPath] else foldersToVisit)"

text \<open>Lines 134-145: does the folder hold a manifest that declares the name?\<close>

definition packageJsonMatches :: "Env \<Rightarrow> FileSystem \<Rightarrow> string \<Rightarrow> string \<Rightarrow> error + bool" where
  "packageJsonMatches env fs packageName folderPath =
     (let packageJsonFilePath = joinPath env folderPath ''package.json''
      in if fileExistsSync fs packageJsonFilePath
         then (case readPackageJsonFileSync fs packageJsonFilePath of
                 Inl e \<Rightarrow> Inl e
               | Inr packageJson \<Rightarrow> Inr (truthy (name packageJson) \<and> name packageJson = Some packageName))
         else Inr False)"

text \<open>Lines 147-154: queue the parent folder and the parent's child folders.\<close>

definition addParentAndSiblings :: "Env \<Rightarrow> string list \<Rightarrow> string list \<Rightarrow> string \<Rightarrow> error + string list" where
  "addParentAndSiblings env visitedFolders foldersToVisit folderPath =
     (let parentFolderPath = getParentFolderPath env folderPath
      in if parentFolderPath \<noteq> []
         then (case getChildFolderPaths env parentFolderPath of
                 None \<Rightarrow> Inl TypeError
               | Some children \<Rightarrow>
                   Inr (foldl (addFolderToVisit visitedFolders)
                          (addFolderToVisit visitedFolders foldersToVisit parentFolderPath) children))
         else Inr foldersToVisit)"

definition newClonedPackage :: "string \<Rightarrow> ClonedPackage" where
  "newClonedPackage folderPath =
     \<lparr>path = folderPath, runNPMInstall = None, defaultVersion = None, dependenciesToIgnore = None,
      updated = None, targetVersion = None\<rparr>"

text \<open>The \<^verbatim>\<open>while (foldersToVisit.length > 0)\<close> loop; \<open>None\<close> when it does not return.
  The result carries the final \<^verbatim>\<open>visitedFolders\<close>.\<close>

partial_function (option) findPackageSearch ::
  "Env \<Rightarrow> FileSystem \<Rightarrow> string \<Rightarrow> string list \<Rightarrow> string list
     \<Rightarrow> (error + ClonedPackage option \<times> string list) option"
where
  "findPackageSearch env fs packageName visitedFolders foldersToVisit =
     (case foldersToVisit of
        [] \<Rightarrow> Some (Inr (None, visitedFolders))
      | folderPath # rest \<Rightarrow>
          (case packageJsonMatches env fs packageName folderPath of
             Inl e \<Rightarrow> Some (Inl e)
           | Inr found \<Rightarrow>
               if found
               then Some (Inr (Some (newClonedPackage folderPath), visitedFolders @ [folderPath]))
               else (case addParentAndSiblings env (visitedFolders @ [folderPath]) rest folderPath of
                       Inl e \<Rightarrow> Some (Inl e)
                     | Inr foldersToVisit' \<Rightarrow>
                         findPackageSearch env fs packageName (visitedFolders @ [folderPath]) foldersToVisit')))"

declare findPackageSearch.simps [code]

definition startFolders :: "Env \<Rightarrow> FileSystem \<Rightarrow> string \<Rightarrow> string list" where
  "startFolders env fs startPath =
     (let normalizedStartPath = normalize env startPath
      in if fileExistsSync fs normalizedStartPath then [getParentFolderPath env normalizedStartPath]
         else if folderExistsSync env normalizedStartPath then [normalizedStartPath]
         else [])"

text \<open>\<open>findPackage\<close> returns the result, the cache as the call leaves it, and the folders
  it looked at (none on a cache hit).\<close>

definition findPackage ::
  "Env \<Rightarrow> FileSystem \<Rightarrow> string \<Rightarrow> string \<Rightarrow> ClonedPackages option
     \<Rightarrow> (error + ClonedPackage option \<times> ClonedPackages option \<times> string list) option"
where
  "findPackage env fs packageName startPath clonedPackages =
     (case (case clonedPackages of
              None \<Rightarrow> None
            | Some cache \<Rightarrow> if hasKey cache packageName then Some cache else None) of
        Some cache \<Rightarrow> Some (Inr (getClonedPackage cache packageName, clonedPackages, []))
      | None \<Rightarrow>
          (case findPackageSearch env fs packageName [] (startFolders env fs startPath) of
             None \<Rightarrow> None
           | Some (Inl e) \<Rightarrow> Some (Inl e)
           | Some (Inr (result, visitedFolders)) \<Rightarrow>
               Some (Inr (result,
                          map_option (\<lambda>cache. setKey cache packageName result) clonedPackages,
                          visitedFolders))))"

section \<open>getDependencyTargetVersion and updateDependencies\<close>

text \<open>The state a run threads through its calls: the files, the shared cache and the
  trace of what was done. Of the logger's output only the line
  \<^verbatim>\<open>Changing "name" from "old" to "new"...\<close> of \<^verbatim>\<open>updateDependencies\<close> is kept.\<close>

record RunState =
  files :: FileSystem
  clonedPackages :: ClonedPackages
  events :: "Event list"

text \<open>Lines 173-175: \<^verbatim>\<open>distTags && distTags["latest"]\<close> of the registry's answer.\<close>

definition latestDistTag :: "Env \<Rightarrow> string \<Rightarrow> string option" where
  "latestDistTag env dependencyName =
     (case dist_tags (npmView env dependencyName) of
        None \<Rightarrow> None
      | Some distTags \<Rightarrow> map_of distTags ''latest'')"

text \<open>Lines 170-181: the clone with its \<^verbatim>\<open>targetVersion\<close> assigned, and the registry
  queries made for it.\<close>

definition assignTargetVersion ::
  "Env \<Rightarrow> string \<Rightarrow> DepedencyType \<Rightarrow> ClonedPackage \<Rightarrow> ClonedPackage \<times> Event list"
where
  "assignTargetVersion env dependencyName dependencyType dependencyClonedPackage =
     (case dependencyType of
        Local \<Rightarrow>
          (dependencyClonedPackage\<lparr>targetVersion := Some (''file:'' @ path dependencyClonedPackage)\<rparr>, [])
      | Latest \<Rightarrow>
          (dependencyClonedPackage\<lparr>targetVersion :=
             (case latestDistTag env dependencyName of
                None \<Rightarrow> defaultVersion dependencyClonedPackage
              | Some v \<Rightarrow> if v \<noteq> [] then Some (''^'' @ v)
                          else defaultVersion dependencyClonedPackage)\<rparr>,
           [NpmView dependencyName]))"

definition getDependencyTargetVersion ::
  "Env \<Rightarrow> ClonedPackage \<Rightarrow> string \<Rightarrow> DepedencyType \<Rightarrow> RunState
     \<Rightarrow> (error + string option \<times> RunState) option"
where
  "getDependencyTargetVersion env clonedPackage dependencyName dependencyType st =
     (case findPackage env (files st) dependencyName (path clonedPackage) (Some (clonedPackages st)) of
        None \<Rightarrow> None
      | Some (Inl e) \<Rightarrow> Some (Inl e)
      | Some (Inr (found, cacheAfter, visitedFolders)) \<Rightarrow>
          (let cache = (case cacheAfter of None \<Rightarrow> clonedPackages st | Some c \<Rightarrow> c)
           in case found of
                None \<Rightarrow> Some (Inr (None, st\<lparr>clonedPackages := cache\<rparr>))
              | Some dependencyClonedPackage \<Rightarrow>
                  if \<not> truthy (targetVersion dependencyClonedPackage)
                  then (case assignTargetVersion env dependencyName dependencyType dependencyClonedPackage of
                          (assigned, queries) \<Rightarrow>
                            Some (Inr (targetVersion assigned,
                                       st\<lparr>clonedPackages := setKey cache dependencyName (Some assigned),
                                          events := events st @ queries\<rparr>)))
                  else Some (Inr (targetVersion dependencyClonedPackage, st\<lparr>clonedPackages := cache\<rparr>))))"

text \<open>Lines 88-96: one turn of the loop over \<^verbatim>\<open>Object.keys(dependencies)\<close>.\<close>

definition updateDependency ::
  "Env \<Rightarrow> ClonedPackage \<Rightarrow> DepedencyType \<Rightarrow> string
     \<Rightarrow> string StringMap \<times> string list \<times> RunState
     \<Rightarrow> (error + string StringMap \<times> string list \<times> RunState) option"
where
  "updateDependency env clonedPackage dependencyType dependencyName acc =
     (case acc of (deps, changed, st) \<Rightarrow>
        if \<not> contains (dependenciesToIgnore clonedPackage) dependencyName
        then (let dependencyVersion = map_of deps dependencyName
              in case getDependencyTargetVersion env clonedPackage dependencyName dependencyType st of
                   None \<Rightarrow> None
                 | Some (Inl e) \<Rightarrow> Some (Inl e)
                 | Some (Inr (dependencyTargetVersion, st')) \<Rightarrow>
                     (case dependencyTargetVersion of
                        None \<Rightarrow> Some (Inr (deps, changed, st'))
                      | Some target \<Rightarrow>
                          if target \<noteq> [] \<and> dependencyVersion \<noteq> Some target
                          then Some (Inr (setKey deps dependencyName target,
                                          changed @ [dependencyName],
                                          st'\<lparr>events := events st' @
                                             [LogChanging dependencyName
                                                (case dependencyVersion of None \<Rightarrow> ''undefined'' | Some v \<Rightarrow> v)
                                                target]\<rparr>))
                          else Some (Inr (deps, changed, st'))))
        else Some (Inr (deps, changed, st)))"

fun updateDependenciesLoop ::
  "Env \<Rightarrow> ClonedPackage \<Rightarrow> DepedencyType \<Rightarrow> string list
     \<Rightarrow> string StringMap \<times> string list \<times> RunState
     \<Rightarrow> (error + string StringMap \<times> string list \<times> RunState) option"
where
  "updateDependenciesLoop env clonedPackage dependencyType [] acc = Some (Inr acc)"
| "updateDependenciesLoop env clonedPackage dependencyType (dependencyName # rest) acc =
     (case updateDependency env clonedPackage dependencyType dependencyName acc of
        None \<Rightarrow> None
      | Some (Inl e) \<Rightarrow> Some (Inl e)
      | Some (Inr acc') \<Rightarrow> updateDependenciesLoop env clonedPackage dependencyType rest acc')"

text \<open>\<open>updateDependencies\<close> returns the map as the call leaves it, the names changed and
  the state.\<close>

definition updateDependencies ::
  "Env \<Rightarrow> ClonedPackage \<Rightarrow> string StringMap option \<Rightarrow> DepedencyType \<Rightarrow> RunState
     \<Rightarrow> (error + string StringMap option \<times> string list \<times> RunState) option"
where
  "updateDependencies env clonedPackage deps dependencyType st =
     (case deps of
        None \<Rightarrow> Some (Inr (None, [], st))
      | Some d \<Rightarrow>
          (case updateDependenciesLoop env clonedPackage dependencyType (keys d) (d, [], st) of
             None \<Rightarrow> None
           | Some (Inl e) \<Rightarrow> Some (Inl e)
           | Some (Inr (d', changed, st')) \<Rightarrow> Some (Inr (Some d', changed, st'))))"

section \<open>changeClonedDependenciesTo\<close>

text \<open>A property access with an undefined name uses the key \<^verbatim>\<open>"undefined"\<close>.\<close>

definition propertyKey :: "string option \<Rightarrow> string" where
  "propertyKey k = (case k of None \<Rightarrow> ''undefined'' | Some v \<Rightarrow> v)"

fun packageFolderPath :: "PackageFolderArg \<Rightarrow> string" where
  "packageFolderPath (PathString p) = p"
| "packageFolderPath (Folder packageFolder) = path packageFolder"

definition packagePathsToAdd :: "string \<Rightarrow> ChangeClonedDependenciesToOptions \<Rightarrow> string list" where
  "packagePathsToAdd packagePath options =
     packagePath # (case packageFolders options of None \<Rightarrow> [] | Some pfs \<Rightarrow> map packageFolderPath pfs)"

text \<open>Lines 228-237: the clone registered for a requested path.\<close>

definition requestedClonedPackage ::
  "ChangeClonedDependenciesToOptions \<Rightarrow> string \<Rightarrow> string \<Rightarrow> ClonedPackage"
where
  "requestedClonedPackage options packagePathToAdd packageFolderPath' =
     (case first (packageFolders options) (\<lambda>pf. packageFolderPath pf = packagePathToAdd) of
        Some (Folder packageFolder) \<Rightarrow>
          (newClonedPackage packageFolderPath')
            \<lparr>defaultVersion := defaultVersion packageFolder,
             dependenciesToIgnore := dependenciesToIgnore packageFolder,
             runNPMInstall := runNPMInstall packageFolder\<rparr>
      | _ \<Rightarrow> newClonedPackage packageFolderPath')"

text \<open>Lines 214-241: the loop over the requested paths, giving the exit code, the cache
  and the queue of folders.\<close>

fun addPackagePaths ::
  "Env \<Rightarrow> FileSystem \<Rightarrow> ChangeClonedDependenciesToOptions \<Rightarrow> string list
     \<Rightarrow> ClonedPackages \<times> string list \<Rightarrow> error + int \<times> ClonedPackages \<times> string list"
where
  "addPackagePaths env fs options [] (cache, toVisit) = Inr (0, cache, toVisit)"
| "addPackagePaths env fs options (packagePathToAdd # rest) (cache, toVisit) =
     (if \<not> truthy (findPackageJsonFileSync env packagePathToAdd)
      then Inr (1, cache, toVisit)
      else (let packageJsonFilePath = propertyKey (findPackageJsonFileSync env packagePathToAdd);
                packageFolderPath' = getParentFolderPath env packageJsonFilePath
            in case readPackageJsonFileSync fs packageJsonFilePath of
                 Inl e \<Rightarrow> Inl e
               | Inr packageJson \<Rightarrow>
                   addPackagePaths env fs options rest
                     (setKey cache (propertyKey (name packageJson))
                        (Some (requestedClonedPackage options packagePathToAdd packageFolderPath')),
                      toVisit @ [packageFolderPath'])))"

definition writePackageJsonFileSync :: "PackageJson \<Rightarrow> string \<Rightarrow> RunState \<Rightarrow> RunState" where
  "writePackageJsonFileSync packageJson filePath st =
     st\<lparr>files := (files st)(filePath \<mapsto> PackageJsonFile packageJson),
        events := events st @ [WritePackageJson filePath]\<rparr>"

definition writePackageLockJsonFileSync :: "PackageLockJson \<Rightarrow> string \<Rightarrow> RunState \<Rightarrow> RunState" where
  "writePackageLockJsonFileSync packageLockJson filePath st =
     st\<lparr>files := (files st)(filePath \<mapsto> PackageLockJsonFile packageLockJson),
        events := events st @ [WritePackageLockJson filePath]\<rparr>"

definition writeFileSync :: "string \<Rightarrow> string \<Rightarrow> RunState \<Rightarrow> RunState" where
  "writeFileSync filePath contents st =
     st\<lparr>files := (files st)(filePath \<mapsto> TextFile contents),
        events := events st @ [WriteFile filePath]\<rparr>"

text \<open>Lines 267-272: the lock file beside a manifest that was written.\<close>

definition updatePackageLockJson ::
  "Env \<Rightarrow> string \<Rightarrow> string list \<Rightarrow> RunState \<Rightarrow> error + RunState"
where
  "updatePackageLockJson env packageFolderPath' changed st =
     (let packageLockJsonFilePath = joinPath env packageFolderPath' ''package-lock.json''
      in if fileExistsSync (files st) packageLockJsonFilePath
         then (case readPackageLockJsonFileSync (files st) packageLockJsonFilePath of
                 Inl e \<Rightarrow> Inl e
               | Inr packageLockJson \<Rightarrow>
                   Inr (writePackageLockJsonFileSync
                          (removePackageLockJsonDependencies env packageLockJson changed)
                          packageLockJsonFilePath st))
         else Inr st)"

text \<open>Lines 251-277: one folder's manifest. The result is the manifest as the call leaves
  it, \<^verbatim>\<open>dependenciesChanged\<close>, \<^verbatim>\<open>devDependenciesChanged\<close>, whether the folder is
  scheduled for an install, and the state.\<close>

definition updatePackageFolder ::
  "Env \<Rightarrow> DepedencyType \<Rightarrow> bool \<Rightarrow> string \<Rightarrow> RunState
     \<Rightarrow> (error + PackageJson \<times> string list \<times> string list \<times> bool \<times> RunState) option"
where
  "updatePackageFolder env dependencyType forceInstall' packageFolderPath' st =
     (let packageJsonFilePath = joinPath env packageFolderPath' ''package.json''
      in case readPackageJsonFileSync (files st) packageJsonFilePath of
           Inl e \<Rightarrow> Some (Inl e)
         | Inr packageJson \<Rightarrow>
        (let packageName = propertyKey (name packageJson)
         in case getClonedPackage (clonedPackages st) packageName of
              None \<Rightarrow> Some (Inl TypeError)
            | Some found \<Rightarrow>
        (let clonedPackage = found\<lparr>updated := Some True\<rparr>;
             st1 = st\<lparr>clonedPackages := setKey (clonedPackages st) packageName (Some clonedPackage)\<rparr>
         in case updateDependencies env clonedPackage (dependencies packageJson) dependencyType st1 of
              None \<Rightarrow> None
            | Some (Inl e) \<Rightarrow> Some (Inl e)
            | Some (Inr (deps, dependenciesChanged, st2)) \<Rightarrow>
        (case updateDependencies env clonedPackage (devDependencies packageJson) dependencyType st2 of
              None \<Rightarrow> None
            | Some (Inl e) \<Rightarrow> Some (Inl e)
            | Some (Inr (devDeps, devDependenciesChanged, st3)) \<Rightarrow>
        (let packageJson' = packageJson\<lparr>dependencies := deps, devDependencies := devDeps\<rparr>
         in if \<not> any dependenciesChanged \<and> \<not> any devDependenciesChanged
            then Some (Inr (packageJson', dependenciesChanged, devDependenciesChanged,
                            runNPMInstall clonedPackage \<noteq> Some False \<and> forceInstall', st3))
            else (case updatePackageLockJson env packageFolderPath'
                         (dependenciesChanged @ devDependenciesChanged)
                         (writePackageJsonFileSync packageJson' packageJsonFilePath st3) of
                    Inl e \<Rightarrow> Some (Inl e)
                  | Inr st4 \<Rightarrow>
                      Some (Inr (packageJson', dependenciesChanged, devDependenciesChanged,
                                 runNPMInstall clonedPackage \<noteq> Some False, st4))))))))"

text \<open>Lines 280-296: the folders of cloned dependencies that join the queue.\<close>

definition allDependencyNames :: "PackageJson \<Rightarrow> string list" where
  "allDependencyNames packageJson =
     (case dependencies packageJson of None \<Rightarrow> [] | Some d \<Rightarrow> keys d) @
     (case devDependencies packageJson of None \<Rightarrow> [] | Some d \<Rightarrow> keys d)"

definition queueClonedDependency ::
  "ClonedPackages \<Rightarrow> string list \<Rightarrow> string list \<Rightarrow> string \<Rightarrow> string list"
where
  "queueClonedDependency cache visited toVisit dependencyName =
     (case getClonedPackage cache dependencyName of
        None \<Rightarrow> toVisit
      | Some clonedDependency \<Rightarrow>
          if updated clonedDependency \<noteq> Some True
             \<and> \<not> contains (Some visited) (path clonedDependency)
             \<and> \<not> contains (Some toVisit) (path clonedDependency)
          then toVisit @ [path clonedDependency] else toVisit)"

text \<open>The state of the main loop. \<open>foldersUpdated\<close> lists, in the order visited, each
  folder with the names it changed (\<^verbatim>\<open>dependenciesChanged\<close> followed by
  \<^verbatim>\<open>devDependenciesChanged\<close>).\<close>

record LoopState =
  run :: RunState
  packageFolderPathsToVisit :: "string list"
  packageFolderPathsVisited :: "string list"
  folderPathsToRunNPMInstallIn :: "string list"
  foldersUpdated :: "(string \<times> string list) list"

text \<open>Lines 246-297: the body of the main loop, for a queue holding \<open>packageFolderPath'\<close>
  first.\<close>

definition visitPackageFolder ::
  "Env \<Rightarrow> DepedencyType \<Rightarrow> bool \<Rightarrow> bool \<Rightarrow> string \<Rightarrow> string list \<Rightarrow> LoopState
     \<Rightarrow> (error + LoopState) option"
where
  "visitPackageFolder env dependencyType recursive' forceInstall' packageFolderPath' rest s =
     (let visited = packageFolderPathsVisited s @ [packageFolderPath']
      in case updatePackageFolder env dependencyType forceInstall' packageFolderPath' (run s) of
           None \<Rightarrow> None
         | Some (Inl e) \<Rightarrow> Some (Inl e)
         | Some (Inr (packageJson, dependenciesChanged, devDependenciesChanged, install, st)) \<Rightarrow>
             Some (Inr
               (s\<lparr>run := st,
                  packageFolderPathsToVisit :=
                    (if recursive'
                     then foldl (queueClonedDependency (clonedPackages st) visited) rest
                            (allDependencyNames packageJson)
                     else rest),
                  packageFolderPathsVisited := visited,
                  folderPathsToRunNPMInstallIn :=
                    folderPathsToRunNPMInstallIn s @ (if install then [packageFolderPath'] else []),
                  foldersUpdated :=
                    foldersUpdated s @
                      [(packageFolderPath', dependenciesChanged @ devDependenciesChanged)]\<rparr>)))"

partial_function (option) visitPackageFolders ::
  "Env \<Rightarrow> DepedencyType \<Rightarrow> bool \<Rightarrow> bool \<Rightarrow> int \<Rightarrow> LoopState \<Rightarrow> (error + LoopState) option"
where
  "visitPackageFolders env dependencyType recursive' forceInstall' exitCode s =
     (case packageFolderPathsToVisit s of
        [] \<Rightarrow> Some (Inr s)
      | packageFolderPath' # rest \<Rightarrow>
          if exitCode = 0
          then (case visitPackageFolder env dependencyType recursive' forceInstall'
                       packageFolderPath' rest s of
                  None \<Rightarrow> None
                | Some (Inl e) \<Rightarrow> Some (Inl e)
                | Some (Inr s') \<Rightarrow>
                    visitPackageFolders env dependencyType recursive' forceInstall' exitCode s')
          else Some (Inr s))"

declare visitPackageFolders.simps [code]

text \<open>Lines 300-310: the installs, giving the exit code and the trace.\<close>

fun runNPMInstalls :: "Env \<Rightarrow> string list \<Rightarrow> int \<Rightarrow> Event list \<Rightarrow> int \<times> Event list" where
  "runNPMInstalls env [] exitCode trace = (exitCode, trace)"
| "runNPMInstalls env (folderPath # rest) exitCode trace =
     (if npmInstall env folderPath \<noteq> 0
      then (npmInstall env folderPath, trace @ [NpmInstall folderPath])
      else runNPMInstalls env rest (npmInstall env folderPath) (trace @ [NpmInstall folderPath]))"

text \<open>Lines 323-333: the contents of an extra file after one cloned package's turn.\<close>

definition updateStringProperty :: "Env \<Rightarrow> ClonedPackages \<Rightarrow> string \<Rightarrow> string \<Rightarrow> string" where
  "updateStringProperty env cache updatedFileContents clonedPackageName =
     (case getClonedPackage cache clonedPackageName of
        None \<Rightarrow> updatedFileContents
      | Some clonedPackage \<Rightarrow>
          (case targetVersion clonedPackage of
             None \<Rightarrow> updatedFileContents
           | Some target \<Rightarrow>
               if target \<noteq> []
               then (case regExpMatch env clonedPackageName updatedFileContents of
                       None \<Rightarrow> updatedFileContents
                     | Some version \<Rightarrow>
                         if version \<noteq> target
                         then regExpReplace env clonedPackageName target updatedFileContents
                         else updatedFileContents)
               else updatedFileContents))"

text \<open>Lines 319-340: one extra file that exists.\<close>

definition updateExtraFile :: "Env \<Rightarrow> string \<Rightarrow> RunState \<Rightarrow> error + RunState" where
  "updateExtraFile env extraFileToUpdate st =
     (case readFileSync (files st) extraFileToUpdate of
        Inl e \<Rightarrow> Inl e
      | Inr originalFileContents \<Rightarrow>
          (let updatedFileContents =
                 foldl (updateStringProperty env (clonedPackages st)) originalFileContents
                   (keys (clonedPackages st))
           in Inr (if originalFileContents = updatedFileContents then st
                   else writeFileSync extraFileToUpdate updatedFileContents st)))"

text \<open>Lines 313-342: the loop over the extra files, giving the exit code and the state.\<close>

fun updateExtraFiles :: "Env \<Rightarrow> string list \<Rightarrow> RunState \<Rightarrow> error + int \<times> RunState" where
  "updateExtraFiles env [] st = Inr (0, st)"
| "updateExtraFiles env (extraFileToUpdate # rest) st =
     (if \<not> fileExistsSync (files st) extraFileToUpdate
      then Inr (2, st)
      else (case updateExtraFile env extraFileToUpdate st of
              Inl e \<Rightarrow> Inl e
            | Inr st' \<Rightarrow> updateExtraFiles env rest st'))"

text \<open>Lines 300-349: what follows the main loop.\<close>

record RunResult =
  exitCode :: int
  processExitCode :: "int option"
  final :: LoopState

definition finishRun ::
  "Env \<Rightarrow> ChangeClonedDependenciesToOptions \<Rightarrow> int \<Rightarrow> LoopState \<Rightarrow> error + RunResult"
where
  "finishRun env options exitCode0 s =
     (case runNPMInstalls env (folderPathsToRunNPMInstallIn s) exitCode0 (events (run s)) of
        (exitCode1, trace) \<Rightarrow>
          (let st = (run s)\<lparr>events := trace\<rparr>
           in case (case extraFilesToUpdate options of
                      None \<Rightarrow> Inr (exitCode1, st)
                    | Some extraFiles \<Rightarrow>
                        if exitCode1 = 0 then updateExtraFiles env extraFiles st
                        else Inr (exitCode1, st)) of
                Inl e \<Rightarrow> Inl e
              | Inr (exitCode2, st') \<Rightarrow>
                  Inr \<lparr>exitCode = exitCode2,
                       processExitCode =
                         (if setProcessExitCode options \<noteq> Some False then Some exitCode2 else None),
                       final = s\<lparr>run := st'\<rparr>\<rparr>))"

definition optionRecursive :: "Env \<Rightarrow> ChangeClonedDependenciesToOptions \<Rightarrow> bool" where
  "optionRecursive env options =
     (case recursive options of
        Some b \<Rightarrow> b
      | None \<Rightarrow> argvRecursive env \<noteq> ArgString ''false'' \<and> argvRecursive env \<noteq> ArgBoolean False)"

definition optionForceInstall :: "Env \<Rightarrow> ChangeClonedDependenciesToOptions \<Rightarrow> bool" where
  "optionForceInstall env options =
     (case forceInstall options of
        Some b \<Rightarrow> b
      | None \<Rightarrow> argvForceInstall env = ArgString ''true'' \<or> argvForceInstall env = ArgBoolean True)"

definition changeClonedDependenciesTo ::
  "Env \<Rightarrow> FileSystem \<Rightarrow> string \<Rightarrow> DepedencyType \<Rightarrow> ChangeClonedDependenciesToOptions
     \<Rightarrow> (error + RunResult) option"
where
  "changeClonedDependenciesTo env fs packagePath dependencyType options =
     (case addPackagePaths env fs options (packagePathsToAdd packagePath options) ([], []) of
        Inl e \<Rightarrow> Some (Inl e)
      | Inr (exitCode0, cache, toVisit) \<Rightarrow>
          (case visitPackageFolders env dependencyType (optionRecursive env options)
                  (optionForceInstall env options) exitCode0
                  \<lparr>run = \<lparr>files = fs, clonedPackages = cache, events = []\<rparr>,
                   packageFolderPathsToVisit = toVisit,
                   packageFolderPathsVisited = [],
                   folderPathsToRunNPMInstallIn = [],
                   foldersUpdated = []\<rparr> of
             None \<Rightarrow> None
           | Some (Inl e) \<Rightarrow> Some (Inl e)
           | Some (Inr s) \<Rightarrow> Some (finishRun env options exitCode0 s)))"

section \<open>How the cache evolves\<close>

text \<open>A clone keeps its configuration, stays marked once \<^verbatim>\<open>updated\<close>, and keeps a
  target version once it has a non-empty one. A cache grows when every known-absent
  name stays absent and every clone evolves in this way.\<close>

definition cloneGrows :: "ClonedPackage \<Rightarrow> ClonedPackage \<Rightarrow> bool" where
  "cloneGrows c c' =
     (path c' = path c \<and> runNPMInstall c' = runNPMInstall c
      \<and> defaultVersion c' = defaultVersion c
      \<and> dependenciesToIgnore c' = dependenciesToIgnore c
      \<and> (updated c = Some True \<longrightarrow> updated c' = Some True)
      \<and> (truthy (targetVersion c) \<longrightarrow> targetVersion c' = targetVersion c))"

definition cacheGrows :: "ClonedPackages \<Rightarrow> ClonedPackages \<Rightarrow> bool" where
  "cacheGrows cache cache' =
     (\<forall>n. (map_of cache n = Some None \<longrightarrow> map_of cache' n = Some None)
        \<and> (\<forall>c. map_of cache n = Some (Some c) \<longrightarrow>
              (\<exists>c'. map_of cache' n = Some (Some c') \<and> cloneGrows c c')))"

text \<open>A call returns when it neither diverges nor throws.\<close>

definition returns :: "(error + 'a) option \<Rightarrow> bool" where
  "returns outcome = (case outcome of Some (Inr _) \<Rightarrow> True | _ \<Rightarrow> False)"


text \<open>What a run that returns leaves behind; empty for a run that throws or diverges.\<close>

definition resultEvents :: "(error + RunResult) option \<Rightarrow> Event list" where
  "resultEvents outcome = (case outcome of Some (Inr r) \<Rightarrow> events (run (final r)) | _ \<Rightarrow> [])"

definition resultVisited :: "(error + RunResult) option \<Rightarrow> string list" where
  "resultVisited outcome =
     (case outcome of Some (Inr r) \<Rightarrow> packageFolderPathsVisited (final r) | _ \<Rightarrow> [])"

text \<open>A clone for which a \<^verbatim>\<open>latest\<close> resolution gives nothing: the registry has no
  (non-empty) \<^verbatim>\<open>latest\<close> tag for the name and the clone has no (non-empty) default.\<close>

definition unresolvable :: "Env \<Rightarrow> string \<Rightarrow> ClonedPackage \<Rightarrow> bool" where
  "unresolvable env n c = (\<not> truthy (targetVersion (fst (assignTargetVersion env n Latest c))))"

text \<open>Registry queries are only made for \<^verbatim>\<open>latest\<close>; a name that was queried has a clone,
  which either has a target version after exactly one query or cannot be resolved.\<close>

definition queriesConsistent :: "Env \<Rightarrow> DepedencyType \<Rightarrow> RunState \<Rightarrow> bool" where
  "queriesConsistent env ty st =
     (\<forall>n. NpmView n \<in> set (events st) \<longrightarrow>
        ty = Latest
        \<and> (\<exists>c. map_of (clonedPackages st) n = Some (Some c)
              \<and> (truthy (targetVersion c) \<longrightarrow> count_list (events st) (NpmView n) = 1)
              \<and> (\<not> truthy (targetVersion c) \<longrightarrow> unresolvable env n c)))"

text \<open>Every version a dependency was changed to is the target version of its clone.\<close>

definition changesConsistent :: "RunState \<Rightarrow> bool" where
  "changesConsistent st =
     (\<forall>n old v. LogChanging n old v \<in> set (events st) \<longrightarrow>
        (\<exists>c. map_of (clonedPackages st) n = Some (Some c) \<and> targetVersion c = Some v \<and> v \<noteq> []))"

definition runInv :: "Env \<Rightarrow> DepedencyType \<Rightarrow> RunState \<Rightarrow> bool" where
  "runInv env ty st = (queriesConsistent env ty st \<and> changesConsistent st)"

text \<open>The manifests and lock files written, in order.\<close>

definition manifestWrites :: "Event list \<Rightarrow> string list" where
  "manifestWrites trace = [p. WritePackageJson p \<leftarrow> trace]"

definition lockWrites :: "Event list \<Rightarrow> string list" where
  "lockWrites trace = [p. WritePackageLockJson p \<leftarrow> trace]"

text \<open>The folder a requested path is resolved to.\<close>

definition requestedFolder :: "Env \<Rightarrow> string \<Rightarrow> string" where
  "requestedFolder env packagePathToAdd =
     getParentFolderPath env (propertyKey (findPackageJsonFileSync env packagePathToAdd))"

text \<open>A step that writes no manifest and no lock file.\<close>

definition noWrites :: "RunState \<Rightarrow> RunState \<Rightarrow> bool" where
  "noWrites st st' =
     (files st' = files st
      \<and> manifestWrites (events st') = manifestWrites (events st)
      \<and> lockWrites (events st') = lockWrites (events st))"

text \<open>In the main loop the manifests and lock files written are those of the folders
  that had a dependency changed, one write for each such visit.\<close>

definition writesFollowChanges :: "Env \<Rightarrow> FileSystem \<Rightarrow> LoopState \<Rightarrow> bool" where
  "writesFollowChanges env fs s =
     (map fst (foldersUpdated s) = packageFolderPathsVisited s
      \<and> manifestWrites (events (run s)) =
          [joinPath env folder ''package.json''. (folder, changed) \<leftarrow> foldersUpdated s, changed \<noteq> []]
      \<and> lockWrites (events (run s)) =
          [joinPath env folder ''package-lock.json''. (folder, changed) \<leftarrow> foldersUpdated s,
             changed \<noteq> [], fileExistsSync fs (joinPath env folder ''package-lock.json'')]
      \<and> (\<forall>p. fileExistsSync (files (run s)) p = fileExistsSync fs p))"

text \<open>A dependency entry \<open>n: v\<close> is stable when resolving \<open>n\<close>, now or later in the run,
  gives nothing or gives \<open>v\<close>: the name is known to be absent, or its clone has the
  target version \<open>v\<close>, or its clone has no target version and cannot be resolved.\<close>

definition stable :: "Env \<Rightarrow> DepedencyType \<Rightarrow> ClonedPackages \<Rightarrow> string \<Rightarrow> string option \<Rightarrow> bool" where
  "stable env ty cache n v =
     (case map_of cache n of
        None \<Rightarrow> False
      | Some None \<Rightarrow> True
      | Some (Some c) \<Rightarrow>
          if truthy (targetVersion c) then targetVersion c = v
          else ty = Latest \<and> unresolvable env n c)"

definition settledDependencies ::
  "Env \<Rightarrow> DepedencyType \<Rightarrow> ClonedPackages \<Rightarrow> string list option \<Rightarrow> string StringMap option \<Rightarrow> bool"
where
  "settledDependencies env ty cache ignored deps =
     (case deps of
        None \<Rightarrow> True
      | Some d \<Rightarrow> \<forall>n\<in>set (keys d). \<not> contains ignored n \<longrightarrow> stable env ty cache n (map_of d n))"

text \<open>A manifest is settled when its package has a clone and all its entries that are
  not ignored are stable: updating it again changes nothing.\<close>

definition settled :: "Env \<Rightarrow> DepedencyType \<Rightarrow> ClonedPackages \<Rightarrow> PackageJson \<Rightarrow> bool" where
  "settled env ty cache packageJson =
     (\<exists>found. getClonedPackage cache (propertyKey (name packageJson)) = Some found
        \<and> settledDependencies env ty cache (dependenciesToIgnore found) (dependencies packageJson)
        \<and> settledDependencies env ty cache (dependenciesToIgnore found) (devDependencies packageJson))"

definition keepsStable :: "Env \<Rightarrow> DepedencyType \<Rightarrow> RunState \<Rightarrow> RunState \<Rightarrow> bool" where
  "keepsStable env ty st st' =
     (cacheGrows (clonedPackages st) (clonedPackages st')
      \<and> (\<forall>n v. stable env ty (clonedPackages st) n v \<longrightarrow> stable env ty (clonedPackages st') n v))"

text \<open>No manifest has been written twice, and every manifest that has been written is
  settled.\<close>

definition writtenSettled :: "Env \<Rightarrow> DepedencyType \<Rightarrow> RunState \<Rightarrow> bool" where
  "writtenSettled env ty st =
     (distinct (manifestWrites (events st))
      \<and> (\<forall>p\<in>set (manifestWrites (events st)). \<forall>packageJson.
            files st p = Some (PackageJsonFile packageJson) \<longrightarrow>
            settled env ty (clonedPackages st) packageJson))"

section \<open>A small workspace\<close>

text \<open>Three packages side by side under \<^verbatim>\<open>/ws\<close>: \<^verbatim>\<open>a\<close> and \<^verbatim>\<open>b\<close> both depend on
  \<^verbatim>\<open>c\<close>, which the registry does not know. The theorems below are instantiated on it.\<close>

definition exEnv :: Env where
  "exEnv =
     \<lparr>normalize = (\<lambda>p. p),
      getParentFolderPath =
        (\<lambda>p. if p = ''/ws/a/package.json'' then ''/ws/a''
             else if p = ''/ws/b/package.json'' then ''/ws/b''
             else if p = ''/ws/c/package.json'' then ''/ws/c''
             else if p = ''/ws/a'' \<or> p = ''/ws/b'' \<or> p = ''/ws/c'' then ''/ws''
             else []),
      joinPath = (\<lambda>folderPath fileName. folderPath @ ''/'' @ fileName),
      folderExistsSync = (\<lambda>p. p = ''/ws'' \<or> p = ''/ws/a'' \<or> p = ''/ws/b'' \<or> p = ''/ws/c''),
      getChildFolderPaths =
        (\<lambda>p. if p = ''/ws'' then Some [''/ws/a'', ''/ws/b'', ''/ws/c''] else None),
      findPackageJsonFileSync =
        (\<lambda>p. if p = ''/ws/a'' \<or> p = ''/ws/b'' \<or> p = ''/ws/c''
             then Some (p @ ''/package.json'') else None),
      npmView = (\<lambda>packageName. \<lparr>dist_tags = None\<rparr>),
      npmInstall = (\<lambda>folderPath. if folderPath = ''/ws/b'' then 7 else 0),
      removePackageLockJsonDependencies =
        (\<lambda>packageLockJson names. filter (\<lambda>entry. fst entry \<notin> set names) packageLockJson),
      regExpMatch = (\<lambda>packageName contents. None),
      regExpReplace = (\<lambda>packageName version contents. contents),
      argvRecursive = ArgUndefined,
      argvForceInstall = ArgUndefined\<rparr>"

definition exFiles :: FileSystem where
  "exFiles =
     [''/ws/a/package.json'' \<mapsto>
        PackageJsonFile \<lparr>name = Some ''a'', dependencies = Some [(''c'', ''^1.0.0'')],
                         devDependencies = None\<rparr>,
      ''/ws/b/package.json'' \<mapsto>
        PackageJsonFile \<lparr>name = Some ''b'', dependencies = Some [(''c'', ''^1.0.0'')],
                         devDependencies = None\<rparr>,
      ''/ws/c/package.json'' \<mapsto>
        PackageJsonFile \<lparr>name = Some ''c'', dependencies = None, devDependencies = None\<rparr>,
      ''/ws/a/package-lock.json'' \<mapsto> PackageLockJsonFile [(''c'', ''1.0.0'')],
      ''/ws/versions.txt'' \<mapsto> TextFile ''c 1.0.0'']"

definition exOptions :: ChangeClonedDependenciesToOptions where
  "exOptions =
     \<lparr>recursive = None, forceInstall = None, setProcessExitCode = None,
      packageFolders = None, extraFilesToUpdate = None\<rparr>"

definition exState :: RunState where
  "exState = \<lparr>files = exFiles, clonedPackages = [], events = []\<rparr>"

text \<open>A regular-expression engine that finds version \<^verbatim>\<open>1.0.0\<close> in the text
  \<^verbatim>\<open>c 1.0.0\<close>.\<close>

definition exRegExpEnv :: Env where
  "exRegExpEnv =
     exEnv\<lparr>regExpMatch := (\<lambda>packageName contents. if contents = ''c 1.0.0'' then Some ''1.0.0'' else None),
           regExpReplace := (\<lambda>packageName version contents. packageName @ '' '' @ version)\<rparr>"

text \<open>The main loop about to visit \<^verbatim>\<open>a\<close>, with \<^verbatim>\<open>d\<close> known to be absent.\<close>

definition exAbsent :: LoopState where
  "exAbsent =
     \<lparr>run = \<lparr>files = exFiles,
             clonedPackages = [(''a'', Some (newClonedPackage ''/ws/a'')), (''d'', None)],
             events = []\<rparr>,
      packageFolderPathsToVisit = [''/ws/a''], packageFolderPathsVisited = [],
      folderPathsToRunNPMInstallIn = [], foldersUpdated = []\<rparr>"

text \<open>A registry that has published \<^verbatim>\<open>1.2.3\<close> of every package.\<close>

definition exPublishedEnv :: Env where
  "exPublishedEnv = exEnv\<lparr>npmView := (\<lambda>packageName. \<lparr>dist_tags = Some [(''latest'', ''1.2.3'')]\<rparr>)\<rparr>"

text \<open>A second requested path under which there is no manifest.\<close>

definition exMissingOptions :: ChangeClonedDependenciesToOptions where
  "exMissingOptions = exOptions\<lparr>packageFolders := Some [PathString ''/elsewhere'']\<rparr>"

text \<open>Both \<^verbatim>\<open>a\<close> (the package path) and \<^verbatim>\<open>b\<close> are requested.\<close>

definition exBothOptions :: ChangeClonedDependenciesToOptions where
  "exBothOptions = exOptions\<lparr>packageFolders := Some [PathString ''/ws/b'']\<rparr>"

text \<open>The package path \<^verbatim>\<open>a\<close> is also listed, with its configuration, among the package
  folders.\<close>

definition exTwiceOptions :: ChangeClonedDependenciesToOptions where
  "exTwiceOptions =
     exOptions\<lparr>packageFolders :=
       Some [Folder \<lparr>path = ''/ws/a'', runNPMInstall = None, defaultVersion = Some ''^1.0.0'',
                     dependenciesToIgnore = None\<rparr>]\<rparr>"

text \<open>Both \<^verbatim>\<open>a\<close> and \<^verbatim>\<open>b\<close> are requested, and an install is forced in every folder
  that is visited.\<close>

definition exForceOptions :: ChangeClonedDependenciesToOptions where
  "exForceOptions = exBothOptions\<lparr>forceInstall := Some True\<rparr>"

text \<open>Three extra files, of which the second does not exist.\<close>

definition exExtraOptions :: ChangeClonedDependenciesToOptions where
  "exExtraOptions =
     exOptions\<lparr>extraFilesToUpdate :=
       Some [''/ws/versions.txt'', ''/ws/missing.txt'', ''/ws/a/package.json'']\<rparr>"

section \<open>Facts about the installs and the extra files\<close>

lemma runNPMInstalls_trace:
  "runNPMInstalls env scheduled exitCodeBefore trace =
     ((case dropWhile (\<lambda>f. npmInstall env f = 0) scheduled of
         [] \<Rightarrow> (if scheduled = [] then exitCodeBefore else 0)
       | failed # later \<Rightarrow> npmInstall env failed),
      trace @ map NpmInstall (takeWhile (\<lambda>f. npmInstall env f = 0) scheduled
                              @ take 1 (dropWhile (\<lambda>f. npmInstall env f = 0) scheduled)))"
  by (induction scheduled arbitrary: exitCodeBefore trace) (auto split: list.splits)

lemma dropWhile_head_fails: "dropWhile P xs = y # ys \<Longrightarrow> \<not> P y"
  by (metis hd_dropWhile list.distinct(1) list.sel(1))

lemma updateExtraFile_cases:
  assumes "updateExtraFile env extraFile st = Inr st'"
  shows "\<exists>original. readFileSync (files st) extraFile = Inr original
           \<and> st' = (if original = foldl (updateStringProperty env (clonedPackages st)) original (keys (clonedPackages st))
                    then st
                    else writeFileSync extraFile
                           (foldl (updateStringProperty env (clonedPackages st)) original (keys (clonedPackages st))) st)"
  using assms by (auto simp: updateExtraFile_def Let_def split: sum.splits)

lemma readFileSync_exists: "readFileSync fs p = Inr contents \<Longrightarrow> fileExistsSync fs p"
  by (auto simp: readFileSync_def fileExistsSync_def split: option.splits FileContents.splits)

lemma updateExtraFile_exists:
  assumes "updateExtraFile env extraFile st = Inr st'"
  shows "fileExistsSync (files st') p = fileExistsSync (files st) p"
proof -
  from updateExtraFile_cases[OF assms] obtain original where
    r: "readFileSync (files st) extraFile = Inr original" and
    s: "st' = st \<or> (\<exists>new. st' = writeFileSync extraFile new st)"
    by metis
  from r have "fileExistsSync (files st) extraFile" by (rule readFileSync_exists)
  with s show ?thesis
    by (auto simp: writeFileSync_def fileExistsSync_def split: option.splits if_splits)
qed

lemma updateExtraFiles_stops_at_missing:
  assumes "\<forall>g\<in>set before. fileExistsSync (files st) g" and "\<not> fileExistsSync (files st) missing"
  shows "updateExtraFiles env (before @ missing # later) st =
           (case updateExtraFiles env before st of Inl e \<Rightarrow> Inl e | Inr (c, st') \<Rightarrow> Inr (2, st'))"
  using assms
proof (induction before arbitrary: st)
  case Nil
  then show ?case by simp
next
  case (Cons g before)
  show ?case
  proof (cases "updateExtraFile env g st")
    case (Inl e)
    with Cons.prems show ?thesis by simp
  next
    case (Inr st1)
    have "\<forall>h\<in>set before. fileExistsSync (files st1) h" "\<not> fileExistsSync (files st1) missing"
      using Cons.prems updateExtraFile_exists[OF Inr] by auto
    from Cons.IH[OF this] Inr Cons.prems show ?thesis by simp
  qed
qed

section \<open>Basic facts\<close>

subsection \<open>String maps and the cache\<close>

lemma hasKey_iff: "hasKey m k = (map_of m k \<noteq> None)"
  by (simp add: hasKey_def split: option.splits)

lemma map_of_setKey: "map_of (setKey m k v) = (map_of m)(k \<mapsto> v)"
  by (simp add: setKey_def update_conv')

lemma hasKey_setKey: "hasKey (setKey m k v) k' = (k' = k \<or> hasKey m k')"
  by (simp add: hasKey_iff map_of_setKey)

lemma getClonedPackage_setKey:
  "getClonedPackage (setKey m k v) k' = (if k' = k then v else getClonedPackage m k')"
  by (simp add: getClonedPackage_def map_of_setKey)

lemma keys_setKey: "keys (setKey m k v) = (if hasKey m k then keys m else keys m @ [k])"
  by (simp add: keys_def setKey_def update_keys hasKey_iff map_of_eq_None_iff)

lemma findPackage_hit:
  "hasKey cache packageName \<Longrightarrow>
     findPackage env fs packageName startPath (Some cache) =
       Some (Inr (getClonedPackage cache packageName, Some cache, []))"
  by (simp add: findPackage_def)

lemma findPackage_cache_after:
  assumes "findPackage env fs packageName startPath (Some cache) = Some (Inr (result, cacheAfter, visited))"
  shows "cacheAfter = Some (if hasKey cache packageName then cache else setKey cache packageName result)"
    and "hasKey cache packageName \<Longrightarrow> result = getClonedPackage cache packageName \<and> visited = []"
  using assms by (auto simp: findPackage_def split: if_splits option.splits sum.splits)

subsection \<open>What a call that returns has done\<close>

lemma getDependencyTargetVersion_cases:
  assumes "getDependencyTargetVersion env clonedPackage dependencyName dependencyType st = Some (Inr (r, st'))"
  obtains
    (absent) visited where
      "findPackage env (files st) dependencyName (path clonedPackage) (Some (clonedPackages st)) =
         Some (Inr (None, Some (if hasKey (clonedPackages st) dependencyName then clonedPackages st
                                else setKey (clonedPackages st) dependencyName None), visited))"
      "r = None"
      "st' = st\<lparr>clonedPackages := (if hasKey (clonedPackages st) dependencyName then clonedPackages st
                                else setKey (clonedPackages st) dependencyName None)\<rparr>"
  | (cached) clone visited where
      "findPackage env (files st) dependencyName (path clonedPackage) (Some (clonedPackages st)) =
         Some (Inr (Some clone, Some (if hasKey (clonedPackages st) dependencyName then clonedPackages st
                                else setKey (clonedPackages st) dependencyName (Some clone)), visited))"
      "truthy (targetVersion clone)"
      "r = targetVersion clone"
      "st' = st\<lparr>clonedPackages := (if hasKey (clonedPackages st) dependencyName then clonedPackages st
                                else setKey (clonedPackages st) dependencyName (Some clone))\<rparr>"
  | (assigned) clone visited where
      "findPackage env (files st) dependencyName (path clonedPackage) (Some (clonedPackages st)) =
         Some (Inr (Some clone, Some (if hasKey (clonedPackages st) dependencyName then clonedPackages st
                                else setKey (clonedPackages st) dependencyName (Some clone)), visited))"
      "\<not> truthy (targetVersion clone)"
      "r = targetVersion (fst (assignTargetVersion env dependencyName dependencyType clone))"
      "st' = st\<lparr>clonedPackages :=
                   setKey (if hasKey (clonedPackages st) dependencyName then clonedPackages st
                           else setKey (clonedPackages st) dependencyName (Some clone))
                     dependencyName (Some (fst (assignTargetVersion env dependencyName dependencyType clone))),
                 events := events st @ snd (assignTargetVersion env dependencyName dependencyType clone)\<rparr>"
proof -
  from assms obtain found cacheAfter visited where
    f: "findPackage env (files st) dependencyName (path clonedPackage) (Some (clonedPackages st)) =
          Some (Inr (found, cacheAfter, visited))"
    by (auto simp: getDependencyTargetVersion_def split: option.splits sum.splits)
  let ?cache = "if hasKey (clonedPackages st) dependencyName then clonedPackages st
                else setKey (clonedPackages st) dependencyName found"
  have ca: "cacheAfter = Some ?cache"
    using findPackage_cache_after(1)[OF f] .
  have f': "findPackage env (files st) dependencyName (path clonedPackage) (Some (clonedPackages st)) =
          Some (Inr (found, Some ?cache, visited))"
    using f ca by simp
  show thesis
  proof (cases found)
    case None
    have "r = None" "st' = st\<lparr>clonedPackages := ?cache\<rparr>"
      using assms f' None by (simp_all add: getDependencyTargetVersion_def)
    then show ?thesis
      using absent[of visited] f' None by simp
  next
    case (Some clone)
    show ?thesis
    proof (cases "truthy (targetVersion clone)")
      case True
      have "r = targetVersion clone" "st' = st\<lparr>clonedPackages := ?cache\<rparr>"
        using assms f' Some True by (simp_all add: getDependencyTargetVersion_def)
      then show ?thesis
        using cached[of clone visited] f' Some True by simp
    next
      case False
      have "r = targetVersion (fst (assignTargetVersion env dependencyName dependencyType clone))"
        "st' = st\<lparr>clonedPackages :=
                   setKey ?cache dependencyName
                     (Some (fst (assignTargetVersion env dependencyName dependencyType clone))),
                 events := events st @ snd (assignTargetVersion env dependencyName dependencyType clone)\<rparr>"
        using assms f' Some False by (simp_all add: getDependencyTargetVersion_def split_beta)
      then show ?thesis
        using assigned[of clone visited] f' Some False by simp
    qed
  qed
qed

lemma updateDependency_cases:
  assumes "updateDependency env clonedPackage dependencyType dependencyName (deps, changed, st) =
             Some (Inr (deps', changed', st'))"
  obtains
    (ignored) "contains (dependenciesToIgnore clonedPackage) dependencyName"
      "deps' = deps" "changed' = changed" "st' = st"
  | (kept) r where
      "\<not> contains (dependenciesToIgnore clonedPackage) dependencyName"
      "getDependencyTargetVersion env clonedPackage dependencyName dependencyType st = Some (Inr (r, st'))"
      "\<not> truthy r \<or> map_of deps dependencyName = r"
      "deps' = deps" "changed' = changed"
  | (replaced) target st1 where
      "\<not> contains (dependenciesToIgnore clonedPackage) dependencyName"
      "getDependencyTargetVersion env clonedPackage dependencyName dependencyType st = Some (Inr (Some target, st1))"
      "target \<noteq> []" "map_of deps dependencyName \<noteq> Some target"
      "deps' = setKey deps dependencyName target" "changed' = changed @ [dependencyName]"
      "st' = st1\<lparr>events := events st1 @
                [LogChanging dependencyName
                   (case map_of deps dependencyName of None \<Rightarrow> ''undefined'' | Some v \<Rightarrow> v) target]\<rparr>"
proof (cases "contains (dependenciesToIgnore clonedPackage) dependencyName")
  case True
  with assms ignored show ?thesis by (simp add: updateDependency_def)
next
  case False
  with assms obtain r st1 where
    g: "getDependencyTargetVersion env clonedPackage dependencyName dependencyType st = Some (Inr (r, st1))"
    by (auto simp: updateDependency_def Let_def split: option.splits sum.splits)
  show ?thesis
  proof (cases "truthy r \<and> map_of deps dependencyName \<noteq> r")
    case True
    then obtain target where t: "r = Some target" "target \<noteq> []"
      by (auto simp: truthy_def split: option.splits)
    have "deps' = setKey deps dependencyName target" "changed' = changed @ [dependencyName]"
      "st' = st1\<lparr>events := events st1 @
                [LogChanging dependencyName
                   (case map_of deps dependencyName of None \<Rightarrow> ''undefined'' | Some v \<Rightarrow> v) target]\<rparr>"
      using assms False g True t by (simp_all add: updateDependency_def Let_def)
    then show ?thesis
      using replaced[of target st1] False g t True by simp
  next
    case nochange: False
    have "deps' = deps" "changed' = changed" "st' = st1"
      using assms False g nochange
      by (auto simp: updateDependency_def Let_def truthy_def split: option.splits if_splits)
    then show ?thesis
      using kept[of r] False g nochange by auto
  qed
qed

text \<open>A relation between states that is reflexive, transitive and holds across every
  turn of a loop holds across the loop.\<close>

lemma updateDependenciesLoop_lift:
  assumes step: "\<And>n deps changed st deps' changed' st'.
       updateDependency env cp ty n (deps, changed, st) = Some (Inr (deps', changed', st')) \<Longrightarrow> R st st'"
    and refl: "\<And>st. R st st"
    and trans: "\<And>a b c. R a b \<Longrightarrow> R b c \<Longrightarrow> R a c"
    and run: "updateDependenciesLoop env cp ty ns (deps, changed, st) = Some (Inr (deps', changed', st'))"
  shows "R st st'"
  using run
proof (induction ns arbitrary: deps changed st)
  case Nil
  then show ?case using refl by simp
next
  case (Cons n ns)
  from Cons.prems obtain deps1 changed1 st1 where
    s1: "updateDependency env cp ty n (deps, changed, st) = Some (Inr (deps1, changed1, st1))" and
    r1: "updateDependenciesLoop env cp ty ns (deps1, changed1, st1) = Some (Inr (deps', changed', st'))"
    by (auto split: option.splits sum.splits)
  from step[OF s1] Cons.IH[OF r1] show ?case by (rule trans)
qed

lemma updateDependencies_cases:
  assumes "updateDependencies env cp deps ty st = Some (Inr (deps', changed, st'))"
  obtains (undefined) "deps = None" "deps' = None" "changed = []" "st' = st"
  | (defined) d d' where "deps = Some d" "deps' = Some d'"
      "updateDependenciesLoop env cp ty (keys d) (d, [], st) = Some (Inr (d', changed, st'))"
  using assms
  by (cases deps) (auto simp: updateDependencies_def split: option.splits sum.splits)

lemma updateDependencies_lift:
  assumes step: "\<And>n deps changed st deps' changed' st'.
       updateDependency env cp ty n (deps, changed, st) = Some (Inr (deps', changed', st')) \<Longrightarrow> R st st'"
    and refl: "\<And>st. R st st"
    and trans: "\<And>a b c. R a b \<Longrightarrow> R b c \<Longrightarrow> R a c"
    and run: "updateDependencies env cp deps ty st = Some (Inr (deps', changed, st'))"
  shows "R st st'"
  using run
proof (cases rule: updateDependencies_cases)
  case undefined
  then show ?thesis using refl by simp
next
  case (defined d d')
  show ?thesis
    apply (rule updateDependenciesLoop_lift[where R = R and env = env and cp = cp and ty = ty])
       apply (erule step)
      apply (rule refl)
     apply (erule trans, assumption)
    apply (rule defined(3))
    done
qed

lemma updatePackageFolder_cases:
  assumes "updatePackageFolder env ty force folder st = Some (Inr (packageJson', dc, ddc, install, st'))"
  obtains packageJson found st2 st3 where
    "readPackageJsonFileSync (files st) (joinPath env folder ''package.json'') = Inr packageJson"
    "getClonedPackage (clonedPackages st) (propertyKey (name packageJson)) = Some found"
    "updateDependencies env (found\<lparr>updated := Some True\<rparr>) (dependencies packageJson) ty
       (st\<lparr>clonedPackages := setKey (clonedPackages st) (propertyKey (name packageJson))
                                 (Some (found\<lparr>updated := Some True\<rparr>))\<rparr>)
       = Some (Inr (dependencies packageJson', dc, st2))"
    "updateDependencies env (found\<lparr>updated := Some True\<rparr>) (devDependencies packageJson) ty st2
       = Some (Inr (devDependencies packageJson', ddc, st3))"
    "name packageJson' = name packageJson"
    "dc = [] \<and> ddc = [] \<Longrightarrow> st' = st3"
    "\<not> (dc = [] \<and> ddc = []) \<Longrightarrow>
       updatePackageLockJson env folder (dc @ ddc)
         (writePackageJsonFileSync packageJson' (joinPath env folder ''package.json'') st3) = Inr st'"
    "install = (runNPMInstall found \<noteq> Some False \<and> (force \<or> \<not> (dc = [] \<and> ddc = [])))"
proof -
  from assms obtain packageJson where
    a: "readPackageJsonFileSync (files st) (joinPath env folder ''package.json'') = Inr packageJson"
    by (auto simp: updatePackageFolder_def Let_def split: sum.splits)
  from assms a obtain found where
    b: "getClonedPackage (clonedPackages st) (propertyKey (name packageJson)) = Some found"
    by (auto simp: updatePackageFolder_def Let_def split: option.splits)
  let ?cp = "found\<lparr>updated := Some True\<rparr>"
  let ?st1 = "st\<lparr>clonedPackages := setKey (clonedPackages st) (propertyKey (name packageJson)) (Some ?cp)\<rparr>"
  from assms a b obtain deps dc' st2 where
    c: "updateDependencies env ?cp (dependencies packageJson) ty ?st1 = Some (Inr (deps, dc', st2))"
    by (auto simp: updatePackageFolder_def Let_def split: option.splits sum.splits)
  from assms a b c obtain devDeps ddc' st3 where
    d: "updateDependencies env ?cp (devDependencies packageJson) ty st2 = Some (Inr (devDeps, ddc', st3))"
    by (auto simp: updatePackageFolder_def Let_def split: option.splits sum.splits)
  let ?pj = "packageJson\<lparr>dependencies := deps, devDependencies := devDeps\<rparr>"
  have e: "packageJson' = ?pj \<and> dc = dc' \<and> ddc = ddc'"
    using assms a b c d
    by (auto simp: updatePackageFolder_def Let_def any_def split: if_splits sum.splits)
  have f: "dc = [] \<and> ddc = [] \<Longrightarrow> st' = st3"
    using assms a b c d e by (auto simp: updatePackageFolder_def Let_def any_def split: if_splits sum.splits)
  have g: "\<not> (dc = [] \<and> ddc = []) \<Longrightarrow>
       updatePackageLockJson env folder (dc @ ddc)
         (writePackageJsonFileSync packageJson' (joinPath env folder ''package.json'') st3) = Inr st'"
    using assms a b c d e by (auto simp: updatePackageFolder_def Let_def any_def split: if_splits sum.splits)
  have h: "install = (runNPMInstall found \<noteq> Some False \<and> (force \<or> \<not> (dc = [] \<and> ddc = [])))"
    using assms a b c d e by (auto simp: updatePackageFolder_def Let_def any_def split: if_splits sum.splits)
  show thesis
    using that[of packageJson found st2 st3] a b c d e f g h by simp
qed

lemma updatePackageLockJson_cases:
  assumes "updatePackageLockJson env folder changed st = Inr st'"
  obtains (noLock) "\<not> fileExistsSync (files st) (joinPath env folder ''package-lock.json'')" "st' = st"
  | (lock) packageLockJson where
      "fileExistsSync (files st) (joinPath env folder ''package-lock.json'')"
      "readPackageLockJsonFileSync (files st) (joinPath env folder ''package-lock.json'') = Inr packageLockJson"
      "st' = writePackageLockJsonFileSync (removePackageLockJsonDependencies env packageLockJson changed)
               (joinPath env folder ''package-lock.json'') st"
  using assms
  by (auto simp: updatePackageLockJson_def Let_def split: if_splits sum.splits)

lemma updatePackageFolder_lift:
  assumes step: "\<And>cp n deps changed st deps' changed' st'.
       updateDependency env cp ty n (deps, changed, st) = Some (Inr (deps', changed', st')) \<Longrightarrow> R st st'"
    and mark: "\<And>st n found. getClonedPackage (clonedPackages st) n = Some found \<Longrightarrow>
       R st (st\<lparr>clonedPackages := setKey (clonedPackages st) n (Some (found\<lparr>updated := Some True\<rparr>))\<rparr>)"
    and wpj: "\<And>st pj p. R st (writePackageJsonFileSync pj p st)"
    and wlock: "\<And>st l p. R st (writePackageLockJsonFileSync l p st)"
    and refl: "\<And>st. R st st"
    and trans: "\<And>a b c. R a b \<Longrightarrow> R b c \<Longrightarrow> R a c"
    and run: "updatePackageFolder env ty force folder st = Some (Inr (packageJson', dc, ddc, install, st'))"
  shows "R st st'"
  using run
proof (cases rule: updatePackageFolder_cases)
  case (1 packageJson found st2 st3)
  let ?cp = "found\<lparr>updated := Some True\<rparr>"
  let ?st1 = "st\<lparr>clonedPackages := setKey (clonedPackages st) (propertyKey (name packageJson)) (Some ?cp)\<rparr>"
  have r1: "R st ?st1" using mark[OF 1(2)] .
  have r2: "R ?st1 st2"
    apply (rule updateDependencies_lift[where R = R and env = env and ty = ty, OF _ _ _ 1(3)])
      apply (erule step)
     apply (rule refl)
    apply (erule trans, assumption)
    done
  have r3: "R st2 st3"
    apply (rule updateDependencies_lift[where R = R and env = env and ty = ty, OF _ _ _ 1(4)])
      apply (erule step)
     apply (rule refl)
    apply (erule trans, assumption)
    done
  have r03: "R st st3" using r1 r2 r3 trans by blast
  show ?thesis
  proof (cases "dc = [] \<and> ddc = []")
    case True
    with 1(6) r03 show ?thesis by simp
  next
    case False
    let ?w = "writePackageJsonFileSync packageJson' (joinPath env folder ''package.json'') st3"
    have r4: "R st3 ?w" by (rule wpj)
    from 1(7)[OF False] have "R ?w st'"
    proof (cases rule: updatePackageLockJson_cases)
      case noLock
      then show ?thesis using refl by simp
    next
      case (lock packageLockJson)
      then show ?thesis using wlock by simp
    qed
    with r03 r4 trans show ?thesis by blast
  qed
qed

lemma visitPackageFolder_cases:
  assumes "visitPackageFolder env ty rec force folder rest s = Some (Inr s')"
  obtains packageJson dc ddc install st where
    "updatePackageFolder env ty force folder (run s) = Some (Inr (packageJson, dc, ddc, install, st))"
    "s' = s\<lparr>run := st,
            packageFolderPathsToVisit :=
              (if rec
               then foldl (queueClonedDependency (clonedPackages st) (packageFolderPathsVisited s @ [folder])) rest
                      (allDependencyNames packageJson)
               else rest),
            packageFolderPathsVisited := packageFolderPathsVisited s @ [folder],
            folderPathsToRunNPMInstallIn := folderPathsToRunNPMInstallIn s @ (if install then [folder] else []),
            foldersUpdated := foldersUpdated s @ [(folder, dc @ ddc)]\<rparr>"
  using assms
  by (auto simp: visitPackageFolder_def Let_def split: option.splits sum.splits)

lemma visitPackageFolders_lift:
  assumes run: "visitPackageFolders env ty rec force code s = Some (Inr s')"
    and step: "\<And>folder rest s s'. packageFolderPathsToVisit s = folder # rest \<Longrightarrow>
       visitPackageFolder env ty rec force folder rest s = Some (Inr s') \<Longrightarrow> Q s s'"
    and refl: "\<And>s. Q s s"
    and trans: "\<And>a b c. Q a b \<Longrightarrow> Q b c \<Longrightarrow> Q a c"
  shows "Q s s'"
proof -
  let ?P = "\<lambda>e t r f (c::int) s (y::error + LoopState).
      (\<forall>folder rest s s'. packageFolderPathsToVisit s = folder # rest \<longrightarrow>
          visitPackageFolder e t r f folder rest s = Some (Inr s') \<longrightarrow> Q s s')
      \<longrightarrow> (\<forall>s'. y = Inr s' \<longrightarrow> Q s s')"
  have "?P env ty rec force code s (Inr s')"
    apply (rule visitPackageFolders.raw_induct[where P = ?P, OF _ run])
    subgoal premises prems for f e t r fo c s y
    proof (intro impI allI)
      fix s'
      assume st: "\<forall>folder rest s s'. packageFolderPathsToVisit s = folder # rest \<longrightarrow>
          visitPackageFolder e t r fo folder rest s = Some (Inr s') \<longrightarrow> Q s s'"
        and y: "y = Inr s'"
      show "Q s s'"
      proof (cases "packageFolderPathsToVisit s")
        case Nil
        with prems(2) y refl show ?thesis by auto
      next
        case (Cons folder rest)
        show ?thesis
        proof (cases "c = 0")
          case False
          with prems(2) Cons y refl show ?thesis by auto
        next
          case True
          from prems(2) Cons True y obtain s1 where
            v: "visitPackageFolder e t r fo folder rest s = Some (Inr s1)" and
            r: "f e t r fo c s1 = Some (Inr s')"
            by (auto split: option.splits sum.splits)
          have q1: "Q s s1" using st Cons v by blast
          have "Q s1 s'" using prems(1)[OF r] st by blast
          with q1 trans show ?thesis by blast
        qed
      qed
    qed
    done
  with step show ?thesis by blast
qed

lemma visitPackageFolders_run_lift:
  assumes step: "\<And>cp n deps changed st deps' changed' st'.
       updateDependency env cp ty n (deps, changed, st) = Some (Inr (deps', changed', st')) \<Longrightarrow> R st st'"
    and mark: "\<And>st n found. getClonedPackage (clonedPackages st) n = Some found \<Longrightarrow>
       R st (st\<lparr>clonedPackages := setKey (clonedPackages st) n (Some (found\<lparr>updated := Some True\<rparr>))\<rparr>)"
    and wpj: "\<And>st pj p. R st (writePackageJsonFileSync pj p st)"
    and wlock: "\<And>st l p. R st (writePackageLockJsonFileSync l p st)"
    and refl: "\<And>st. R st st"
    and trans: "\<And>a b c. R a b \<Longrightarrow> R b c \<Longrightarrow> R a c"
    and run: "visitPackageFolders env ty rec force code s = Some (Inr s')"
  shows "R (run s) (run s')"
proof (rule visitPackageFolders_lift[where Q = "\<lambda>s s'. R (run s) (run s')", OF run])
  fix folder rest s s'
  assume "visitPackageFolder env ty rec force folder rest s = Some (Inr s')"
  then show "R (run s) (run s')"
  proof (cases rule: visitPackageFolder_cases)
    case (1 packageJson dc ddc install st)
    have "R (run s) st"
      apply (rule updatePackageFolder_lift[where R = R and env = env and ty = ty, OF _ _ _ _ _ _ 1(1)])
           apply (erule step)
          apply (erule mark)
         apply (rule wpj)
        apply (rule wlock)
       apply (rule refl)
      apply (erule trans, assumption)
      done
    with 1(2) show ?thesis by simp
  qed
next
  show "\<And>s. R (run s) (run s)" by (rule refl)
next
  show "\<And>a b c. R (run a) (run b) \<Longrightarrow> R (run b) (run c) \<Longrightarrow> R (run a) (run c)"
    by (erule trans)
qed

lemma returnsE: "returns outcome \<Longrightarrow> \<exists>r. outcome = Some (Inr r)"
  by (auto simp: returns_def split: option.splits sum.splits)

subsection \<open>The cache only grows\<close>

lemma cloneGrows_refl: "cloneGrows c c"
  by (simp add: cloneGrows_def)

lemma cloneGrows_trans: "cloneGrows a b \<Longrightarrow> cloneGrows b c \<Longrightarrow> cloneGrows a c"
  by (auto simp: cloneGrows_def)

lemma cacheGrows_refl: "cacheGrows c c"
  by (auto simp: cacheGrows_def cloneGrows_refl)

lemma cacheGrows_trans:
  assumes "cacheGrows a b" and "cacheGrows b c"
  shows "cacheGrows a c"
  unfolding cacheGrows_def
proof (intro allI conjI impI)
  fix n
  assume "map_of a n = Some None"
  with assms show "map_of c n = Some None" by (auto simp: cacheGrows_def)
next
  fix n x
  assume "map_of a n = Some (Some x)"
  with assms(1) obtain y where y: "map_of b n = Some (Some y)" "cloneGrows x y"
    by (auto simp: cacheGrows_def)
  with assms(2) obtain z where z: "map_of c n = Some (Some z)" "cloneGrows y z"
    by (auto simp: cacheGrows_def)
  from y z show "\<exists>c'. map_of c n = Some (Some c') \<and> cloneGrows x c'"
    using cloneGrows_trans by blast
qed

lemma cacheGrows_setKey_new: "\<not> hasKey c n \<Longrightarrow> cacheGrows c (setKey c n v)"
  by (auto simp: cacheGrows_def hasKey_iff map_of_setKey cloneGrows_refl)

lemma cacheGrows_setKey_clone:
  "map_of c n = Some (Some x) \<Longrightarrow> cloneGrows x y \<Longrightarrow> cacheGrows c (setKey c n (Some y))"
  by (auto simp: cacheGrows_def map_of_setKey cloneGrows_refl)

lemma hasKey_map_of: "hasKey c n \<Longrightarrow> map_of c n = Some (getClonedPackage c n)"
  by (auto simp: hasKey_iff getClonedPackage_def)

lemma getClonedPackage_Some: "getClonedPackage c n = Some x \<longleftrightarrow> map_of c n = Some (Some x)"
  by (auto simp: getClonedPackage_def split: option.splits)

lemma findPackage_entry:
  assumes "findPackage env fs n startPath (Some c) = Some (Inr (found, Some c', visited))"
  shows "map_of c' n = Some found" and "cacheGrows c c'"
proof -
  have c': "c' = (if hasKey c n then c else setKey c n found)"
    using findPackage_cache_after(1)[OF assms] by simp
  show "map_of c' n = Some found"
    using c' findPackage_cache_after(2)[OF assms] hasKey_map_of[of c n]
    by (auto simp: map_of_setKey)
  show "cacheGrows c c'"
    using c' by (simp add: cacheGrows_refl cacheGrows_setKey_new)
qed

lemma assignTargetVersion_cloneGrows:
  "\<not> truthy (targetVersion c) \<Longrightarrow> cloneGrows c (fst (assignTargetVersion env n ty c))"
  by (cases ty) (auto simp: assignTargetVersion_def cloneGrows_def Let_def)

lemma getDependencyTargetVersion_cacheGrows:
  assumes "getDependencyTargetVersion env cp n ty st = Some (Inr (r, st'))"
  shows "cacheGrows (clonedPackages st) (clonedPackages st')
       \<and> files st' = files st
       \<and> (truthy r \<longrightarrow> (\<exists>c. map_of (clonedPackages st') n = Some (Some c) \<and> targetVersion c = r))
       \<and> (\<forall>c. map_of (clonedPackages st') n = Some (Some c) \<longrightarrow> targetVersion c = r)"
  using assms
proof (cases rule: getDependencyTargetVersion_cases)
  case (absent visited)
  from findPackage_entry[OF absent(1)] absent(2,3) show ?thesis
    by (auto simp: truthy_def)
next
  case (cached clone visited)
  from findPackage_entry[OF cached(1)] cached(2,3,4) show ?thesis
    by auto
next
  case (assigned clone visited)
  let ?c1 = "if hasKey (clonedPackages st) n then clonedPackages st
             else setKey (clonedPackages st) n (Some clone)"
  let ?a = "fst (assignTargetVersion env n ty clone)"
  from findPackage_entry[OF assigned(1)]
  have e: "map_of ?c1 n = Some (Some clone)" and g: "cacheGrows (clonedPackages st) ?c1"
    by simp_all
  have "cacheGrows ?c1 (setKey ?c1 n (Some ?a))"
    using cacheGrows_setKey_clone[OF e assignTargetVersion_cloneGrows[OF assigned(2)]] .
  with g have "cacheGrows (clonedPackages st) (setKey ?c1 n (Some ?a))"
    by (rule cacheGrows_trans)
  with assigned(3,4) show ?thesis
    by (auto simp: map_of_setKey)
qed

lemma updateDependency_cacheGrows:
  assumes "updateDependency env cp ty n (deps, changed, st) = Some (Inr (deps', changed', st'))"
  shows "cacheGrows (clonedPackages st) (clonedPackages st') \<and> files st' = files st"
  using assms
proof (cases rule: updateDependency_cases)
  case ignored
  then show ?thesis by (simp add: cacheGrows_refl)
next
  case (kept r)
  from getDependencyTargetVersion_cacheGrows[OF kept(2)] show ?thesis by simp
next
  case (replaced target st1)
  from getDependencyTargetVersion_cacheGrows[OF replaced(2)] replaced(7) show ?thesis by simp
qed

lemma mark_updated_cacheGrows:
  "getClonedPackage c n = Some found \<Longrightarrow> cacheGrows c (setKey c n (Some (found\<lparr>updated := Some True\<rparr>)))"
  by (rule cacheGrows_setKey_clone) (auto simp: getClonedPackage_Some cloneGrows_def)

lemma visitPackageFolders_cacheGrows:
  assumes "visitPackageFolders env ty rec force code s = Some (Inr s')"
  shows "cacheGrows (clonedPackages (run s)) (clonedPackages (run s'))"
proof (rule visitPackageFolders_run_lift
         [where R = "\<lambda>st st'. cacheGrows (clonedPackages st) (clonedPackages st')", OF _ _ _ _ _ _ assms])
  fix cp n deps changed st deps' changed' st'
  assume "updateDependency env cp ty n (deps, changed, st) = Some (Inr (deps', changed', st'))"
  then show "cacheGrows (clonedPackages st) (clonedPackages st')"
    using updateDependency_cacheGrows by blast
next
  fix st :: RunState and n found
  assume "getClonedPackage (clonedPackages st) n = Some found"
  then show "cacheGrows (clonedPackages st)
      (clonedPackages (st\<lparr>clonedPackages := setKey (clonedPackages st) n (Some (found\<lparr>updated := Some True\<rparr>))\<rparr>))"
    by (simp add: mark_updated_cacheGrows)
qed (auto simp: writePackageJsonFileSync_def writePackageLockJsonFileSync_def cacheGrows_refl
       intro: cacheGrows_trans)

subsection \<open>The loop of updateDependencies\<close>

lemma getDependencyTargetVersion_cached:
  assumes "map_of (clonedPackages st) n = Some (Some c)" and "truthy (targetVersion c)"
  shows "getDependencyTargetVersion env cp n ty st = Some (Inr (targetVersion c, st))"
proof -
  from assms(1) have "hasKey (clonedPackages st) n" "getClonedPackage (clonedPackages st) n = Some c"
    by (simp_all add: hasKey_iff getClonedPackage_def)
  with assms(2) show ?thesis
    by (simp add: getDependencyTargetVersion_def findPackage_hit)
qed

lemma updateDependenciesLoop_cacheGrows:
  assumes "updateDependenciesLoop env cp ty ns (d, ch, st) = Some (Inr (d', ch', st'))"
  shows "cacheGrows (clonedPackages st) (clonedPackages st')"
  apply (rule updateDependenciesLoop_lift
           [where R = "\<lambda>st st'. cacheGrows (clonedPackages st) (clonedPackages st')" and env = env
              and cp = cp and ty = ty, OF _ _ _ assms])
    apply (drule updateDependency_cacheGrows, simp)
   apply (rule cacheGrows_refl)
  apply (erule cacheGrows_trans, assumption)
  done

lemma keys_setKey_present: "n \<in> set (keys d) \<Longrightarrow> keys (setKey d n v) = keys d"
  by (simp add: keys_def setKey_def update_keys)

subsection \<open>The folder search\<close>








subsection \<open>The requested paths\<close>

lemma addPackagePaths_missing_cases:
  assumes "\<exists>p\<in>set paths. \<not> truthy (findPackageJsonFileSync env p)"
  shows "(\<exists>e. addPackagePaths env fs options paths (cache, toVisit) = Inl e)
       \<or> (\<exists>cache' toVisit'. addPackagePaths env fs options paths (cache, toVisit) = Inr (1, cache', toVisit'))"
  using assms
proof (induction paths arbitrary: cache toVisit)
  case Nil
  then show ?case by simp
next
  case (Cons p paths)
  show ?case
  proof (cases "truthy (findPackageJsonFileSync env p)")
    case False
    then show ?thesis by simp
  next
    case True
    with Cons.prems have m: "\<exists>p\<in>set paths. \<not> truthy (findPackageJsonFileSync env p)"
      by auto
    show ?thesis
    proof (cases "readPackageJsonFileSync fs (propertyKey (findPackageJsonFileSync env p))")
      case (Inl e)
      with True show ?thesis by (simp add: Let_def)
    next
      case (Inr packageJson)
      with True Cons.IH[OF m] show ?thesis by (simp add: Let_def)
    qed
  qed
qed

lemma aborted_run:
  assumes "addPackagePaths env fs options (packagePathsToAdd packagePath options) ([], []) =
             Inr (1, cache', toVisit')"
  shows "\<exists>r. changeClonedDependenciesTo env fs packagePath dependencyType options = Some (Inr r)
      \<and> exitCode r = 1
      \<and> packageFolderPathsVisited (final r) = []
      \<and> foldersUpdated (final r) = []
      \<and> files (run (final r)) = fs
      \<and> events (run (final r)) = []"
proof -
  let ?s = "\<lparr>run = \<lparr>files = fs, clonedPackages = cache', events = []\<rparr>,
             packageFolderPathsToVisit = toVisit',
             packageFolderPathsVisited = [],
             folderPathsToRunNPMInstallIn = [],
             foldersUpdated = []\<rparr>"
  have v: "visitPackageFolders env dependencyType (optionRecursive env options)
             (optionForceInstall env options) 1 ?s = Some (Inr ?s)"
    by (subst visitPackageFolders.simps) (simp split: list.splits)
  have f: "\<exists>r. finishRun env options 1 ?s = Inr r \<and> exitCode r = 1 \<and> final r = ?s"
    by (cases "extraFilesToUpdate options") (simp_all add: finishRun_def Let_def)
  from assms v f show ?thesis
    by (auto simp: changeClonedDependenciesTo_def)
qed

lemma addPackagePaths_missing:
  assumes "\<exists>p\<in>set paths. \<not> truthy (findPackageJsonFileSync env p)"
    and "\<forall>p q. findPackageJsonFileSync env p = Some q \<longrightarrow> (\<exists>packageJson. fs q = Some (PackageJsonFile packageJson))"
  shows "\<exists>cache' toVisit'. addPackagePaths env fs options paths (cache, toVisit) = Inr (1, cache', toVisit')"
  using assms(1)
proof (induction paths arbitrary: cache toVisit)
  case Nil
  then show ?case by simp
next
  case (Cons p paths)
  show ?case
  proof (cases "truthy (findPackageJsonFileSync env p)")
    case False
    then show ?thesis by simp
  next
    case True
    then obtain q where q: "findPackageJsonFileSync env p = Some q"
      by (auto simp: truthy_def split: option.splits)
    with assms(2) obtain packageJson where "fs q = Some (PackageJsonFile packageJson)"
      by blast
    then have r: "readPackageJsonFileSync fs q = Inr packageJson"
      by (simp add: readPackageJsonFileSync_def)
    from True Cons.prems have "\<exists>p\<in>set paths. \<not> truthy (findPackageJsonFileSync env p)"
      by auto
    from Cons.IH[OF this] True q r show ?thesis
      by (simp add: propertyKey_def Let_def)
  qed
qed

subsection \<open>Registry queries and changes agree with the cache\<close>

lemma map_of_cache_after:
  "map_of c n = Some x \<Longrightarrow> map_of (if hasKey c m then c else setKey c m v) n = Some x"
  by (auto simp: hasKey_iff map_of_setKey)

lemma assignTargetVersion_again:
  "targetVersion (fst (assignTargetVersion env n Latest (fst (assignTargetVersion env n ty c)))) =
   targetVersion (fst (assignTargetVersion env n Latest c))"
  by (cases ty) (auto simp: assignTargetVersion_def split: option.splits)

lemma assignTargetVersion_events:
  "snd (assignTargetVersion env n ty c) = (case ty of Local \<Rightarrow> [] | Latest \<Rightarrow> [NpmView n])"
  by (cases ty) (simp_all add: assignTargetVersion_def)

lemma unresolvable_assigned:
  "unresolvable env n (fst (assignTargetVersion env n ty c)) = unresolvable env n c"
  by (simp add: unresolvable_def assignTargetVersion_again)

lemma getDependencyTargetVersion_queriesConsistent:
  assumes run: "getDependencyTargetVersion env cp m ty st = Some (Inr (r, st'))"
    and inv: "queriesConsistent env ty st"
  shows "queriesConsistent env ty st'"
  using run
proof (cases rule: getDependencyTargetVersion_cases)
  case (absent visited)
  then show ?thesis
    using inv by (auto simp: queriesConsistent_def hasKey_iff map_of_setKey)
next
  case (cached clone visited)
  then show ?thesis
    using inv by (auto simp: queriesConsistent_def hasKey_iff map_of_setKey)
next
  case (assigned clone visited)
  let ?c1 = "if hasKey (clonedPackages st) m then clonedPackages st
             else setKey (clonedPackages st) m (Some clone)"
  let ?a = "fst (assignTargetVersion env m ty clone)"
  have e: "map_of ?c1 m = Some (Some clone)"
    using findPackage_entry(1)[OF assigned(1)] by simp
  have cache': "clonedPackages st' = setKey ?c1 m (Some ?a)"
    and events': "events st' = events st @ (case ty of Local \<Rightarrow> [] | Latest \<Rightarrow> [NpmView m])"
    using assigned(4) by (simp_all add: assignTargetVersion_events)
  show ?thesis
    unfolding queriesConsistent_def
  proof (intro allI impI)
    fix n
    assume q: "NpmView n \<in> set (events st')"
    have latest: "ty = Latest"
      using q events' inv by (cases ty) (auto simp: queriesConsistent_def)
    then have ev: "events st' = events st @ [NpmView m]" using events' by simp
    show "ty = Latest
        \<and> (\<exists>c. map_of (clonedPackages st') n = Some (Some c)
              \<and> (truthy (targetVersion c) \<longrightarrow> count_list (events st') (NpmView n) = 1)
              \<and> (\<not> truthy (targetVersion c) \<longrightarrow> unresolvable env n c))"
    proof (cases "n = m")
      case False
      with q ev have "NpmView n \<in> set (events st)" by auto
      with inv obtain c where c: "map_of (clonedPackages st) n = Some (Some c)"
        "truthy (targetVersion c) \<longrightarrow> count_list (events st) (NpmView n) = 1"
        "\<not> truthy (targetVersion c) \<longrightarrow> unresolvable env n c"
        by (auto simp: queriesConsistent_def)
      have "map_of (clonedPackages st') n = Some (Some c)"
        using cache' False map_of_cache_after[OF c(1)] by (simp add: map_of_setKey)
      moreover have "count_list (events st') (NpmView n) = count_list (events st) (NpmView n)"
        using ev False by simp
      ultimately show ?thesis using latest c(2,3) by auto
    next
      case True
      have entry: "map_of (clonedPackages st') n = Some (Some ?a)"
        using cache' True by (simp add: map_of_setKey)
      have un: "\<not> truthy (targetVersion ?a) \<longrightarrow> unresolvable env n ?a"
        using True latest by (simp add: unresolvable_def assignTargetVersion_again)
      have cnt: "truthy (targetVersion ?a) \<longrightarrow> count_list (events st') (NpmView n) = 1"
      proof
        assume t: "truthy (targetVersion ?a)"
        have "NpmView m \<notin> set (events st)"
        proof
          assume "NpmView m \<in> set (events st)"
          with inv obtain c where c: "map_of (clonedPackages st) m = Some (Some c)"
            "\<not> truthy (targetVersion c) \<longrightarrow> unresolvable env m c"
            by (auto simp: queriesConsistent_def)
          from map_of_cache_after[OF c(1)] e have "c = clone" by simp
          with c(2) assigned(2) have "unresolvable env m clone" by simp
          with t latest show False by (simp add: unresolvable_def)
        qed
        then have "count_list (events st) (NpmView m) = 0" by (simp add: count_list_0_iff)
        with ev True show "count_list (events st') (NpmView n) = 1" by simp
      qed
      from latest entry un cnt show ?thesis by blast
    qed
  qed
qed

lemma getDependencyTargetVersion_changesConsistent:
  assumes run: "getDependencyTargetVersion env cp m ty st = Some (Inr (r, st'))"
    and inv: "changesConsistent st"
  shows "changesConsistent st'"
proof -
  have g: "cacheGrows (clonedPackages st) (clonedPackages st')"
    using getDependencyTargetVersion_cacheGrows[OF run] by simp
  have ev: "\<forall>n old v. LogChanging n old v \<in> set (events st') \<longrightarrow> LogChanging n old v \<in> set (events st)"
    using run
    by (cases rule: getDependencyTargetVersion_cases)
       (auto simp: assignTargetVersion_events split: DepedencyType.splits)
  show ?thesis
    unfolding changesConsistent_def
  proof (intro allI impI)
    fix n old v
    assume "LogChanging n old v \<in> set (events st')"
    with ev inv obtain c where c: "map_of (clonedPackages st) n = Some (Some c)"
      "targetVersion c = Some v" "v \<noteq> []"
      unfolding changesConsistent_def by blast
    with g obtain c' where "map_of (clonedPackages st') n = Some (Some c')" "cloneGrows c c'"
      by (auto simp: cacheGrows_def)
    with c show "\<exists>c. map_of (clonedPackages st') n = Some (Some c) \<and> targetVersion c = Some v \<and> v \<noteq> []"
      by (auto simp: cloneGrows_def truthy_def)
  qed
qed

lemma runInv_more_events:
  assumes "runInv env ty st" and "clonedPackages st' = clonedPackages st"
    and "events st' = events st @ extra"
    and "\<forall>e\<in>set extra. (\<forall>n. e \<noteq> NpmView n) \<and> (\<forall>n a b. e \<noteq> LogChanging n a b)"
  shows "runInv env ty st'"
proof -
  have np: "NpmView n \<notin> set extra" and lc: "LogChanging n a b \<notin> set extra" for n a b
    using assms(4) by auto
  have c: "count_list (events st') (NpmView n) = count_list (events st) (NpmView n)" for n
    using assms(3) np[of n] by (simp add: count_list_0_iff)
  have m1: "NpmView n \<in> set (events st') \<longleftrightarrow> NpmView n \<in> set (events st)" for n
    using assms(3) np[of n] by auto
  have m2: "LogChanging n a b \<in> set (events st') \<longleftrightarrow> LogChanging n a b \<in> set (events st)" for n a b
    using assms(3) lc[of n a b] by auto
  show ?thesis
    using assms(1,2) by (simp add: runInv_def queriesConsistent_def changesConsistent_def c m1 m2)
qed

lemma updateDependency_runInv:
  assumes run: "updateDependency env cp ty m (deps, changed, st) = Some (Inr (deps', changed', st'))"
    and inv: "runInv env ty st"
  shows "runInv env ty st'"
  using run
proof (cases rule: updateDependency_cases)
  case ignored
  with inv show ?thesis by simp
next
  case (kept r)
  with inv show ?thesis
    using getDependencyTargetVersion_queriesConsistent getDependencyTargetVersion_changesConsistent
    by (auto simp: runInv_def)
next
  case (replaced target st1)
  have i1: "queriesConsistent env ty st1" "changesConsistent st1"
    using inv replaced(2) getDependencyTargetVersion_queriesConsistent
      getDependencyTargetVersion_changesConsistent
    by (auto simp: runInv_def)
  from getDependencyTargetVersion_cacheGrows[OF replaced(2)] replaced(3)
  obtain c where c: "map_of (clonedPackages st1) m = Some (Some c)" "targetVersion c = Some target"
    by (auto simp: truthy_def)
  let ?e = "LogChanging m (case map_of deps m of None \<Rightarrow> ''undefined'' | Some v \<Rightarrow> v) target"
  have ev: "events st' = events st1 @ [?e]" and ca: "clonedPackages st' = clonedPackages st1"
    using replaced(7) by simp_all
  have q: "queriesConsistent env ty st'"
    using i1(1) ev ca by (auto simp: queriesConsistent_def)
  have "changesConsistent st'"
    unfolding changesConsistent_def
  proof (intro allI impI)
    fix n old v
    assume "LogChanging n old v \<in> set (events st')"
    then consider "LogChanging n old v \<in> set (events st1)" | "n = m" "v = target"
      using ev by auto
    then show "\<exists>c. map_of (clonedPackages st') n = Some (Some c) \<and> targetVersion c = Some v \<and> v \<noteq> []"
    proof cases
      case 1
      with i1(2) ca show ?thesis unfolding changesConsistent_def by simp
    next
      case 2
      with c ca replaced(3) show ?thesis by simp
    qed
  qed
  with q show ?thesis by (simp add: runInv_def)
qed

lemma unresolvable_cong:
  "defaultVersion c' = defaultVersion c \<Longrightarrow> unresolvable env n c' = unresolvable env n c"
  by (auto simp: unresolvable_def assignTargetVersion_def split: option.splits)

lemma runInv_same_targets:
  assumes inv: "runInv env ty st" and ev: "events st' = events st"
    and same: "\<forall>k c. map_of (clonedPackages st) k = Some (Some c) \<longrightarrow>
             (\<exists>c'. map_of (clonedPackages st') k = Some (Some c')
                  \<and> targetVersion c' = targetVersion c \<and> defaultVersion c' = defaultVersion c)"
  shows "runInv env ty st'"
proof -
  have q: "queriesConsistent env ty st'"
    unfolding queriesConsistent_def
  proof (intro allI impI)
    fix n
    assume "NpmView n \<in> set (events st')"
    with ev inv obtain c where c: "ty = Latest" "map_of (clonedPackages st) n = Some (Some c)"
      "truthy (targetVersion c) \<longrightarrow> count_list (events st) (NpmView n) = 1"
      "\<not> truthy (targetVersion c) \<longrightarrow> unresolvable env n c"
      unfolding runInv_def queriesConsistent_def by auto
    from same c(2) obtain c' where c': "map_of (clonedPackages st') n = Some (Some c')"
      "targetVersion c' = targetVersion c" "defaultVersion c' = defaultVersion c"
      by blast
    from c c' ev unresolvable_cong[OF c'(3), of env n]
    show "ty = Latest
        \<and> (\<exists>c. map_of (clonedPackages st') n = Some (Some c)
              \<and> (truthy (targetVersion c) \<longrightarrow> count_list (events st') (NpmView n) = 1)
              \<and> (\<not> truthy (targetVersion c) \<longrightarrow> unresolvable env n c))"
      by auto
  qed
  have "changesConsistent st'"
    unfolding changesConsistent_def
  proof (intro allI impI)
    fix n old v
    assume "LogChanging n old v \<in> set (events st')"
    then have "LogChanging n old v \<in> set (events st)" using ev by simp
    with inv obtain c where c: "map_of (clonedPackages st) n = Some (Some c)"
      "targetVersion c = Some v" "v \<noteq> []"
      unfolding runInv_def changesConsistent_def by blast
    from same c(1) obtain c' where "map_of (clonedPackages st') n = Some (Some c')"
      "targetVersion c' = targetVersion c"
      by blast
    with c show "\<exists>c. map_of (clonedPackages st') n = Some (Some c) \<and> targetVersion c = Some v \<and> v \<noteq> []"
      by auto
  qed
  with q show ?thesis by (simp add: runInv_def)
qed

lemma mark_updated_runInv:
  assumes "getClonedPackage (clonedPackages st) n = Some found" and "runInv env ty st"
  shows "runInv env ty (st\<lparr>clonedPackages := setKey (clonedPackages st) n (Some (found\<lparr>updated := Some True\<rparr>))\<rparr>)"
proof (rule runInv_same_targets[OF assms(2)])
  have f: "map_of (clonedPackages st) n = Some (Some found)"
    using assms(1) by (simp add: getClonedPackage_Some)
  then show "\<forall>k c. map_of (clonedPackages st) k = Some (Some c) \<longrightarrow>
      (\<exists>c'. map_of (clonedPackages
                (st\<lparr>clonedPackages := setKey (clonedPackages st) n (Some (found\<lparr>updated := Some True\<rparr>))\<rparr>)) k
                = Some (Some c')
           \<and> targetVersion c' = targetVersion c \<and> defaultVersion c' = defaultVersion c)"
    by (auto simp: map_of_setKey)
qed simp

lemma visitPackageFolders_runInv:
  assumes "visitPackageFolders env ty rec force code s = Some (Inr s')" and "runInv env ty (run s)"
  shows "runInv env ty (run s')"
proof -
  have "runInv env ty (run s) \<longrightarrow> runInv env ty (run s')"
  proof (rule visitPackageFolders_run_lift
           [where R = "\<lambda>st st'. runInv env ty st \<longrightarrow> runInv env ty st'", OF _ _ _ _ _ _ assms(1)])
    fix cp n deps changed st deps' changed' st'
    assume "updateDependency env cp ty n (deps, changed, st) = Some (Inr (deps', changed', st'))"
    then show "runInv env ty st \<longrightarrow> runInv env ty st'"
      using updateDependency_runInv by blast
  next
    fix st :: RunState and n found
    assume "getClonedPackage (clonedPackages st) n = Some found"
    then show "runInv env ty st \<longrightarrow>
        runInv env ty (st\<lparr>clonedPackages := setKey (clonedPackages st) n (Some (found\<lparr>updated := Some True\<rparr>))\<rparr>)"
      using mark_updated_runInv by blast
  next
    fix st pj p
    show "runInv env ty st \<longrightarrow> runInv env ty (writePackageJsonFileSync pj p st)"
      by (auto intro: runInv_more_events[where extra = "[WritePackageJson p]"]
               simp: writePackageJsonFileSync_def)
  next
    fix st l p
    show "runInv env ty st \<longrightarrow> runInv env ty (writePackageLockJsonFileSync l p st)"
      by (auto intro: runInv_more_events[where extra = "[WritePackageLockJson p]"]
               simp: writePackageLockJsonFileSync_def)
  qed auto
  with assms(2) show ?thesis by simp
qed

lemma updateExtraFile_effect:
  assumes "updateExtraFile env f st = Inr st'"
  shows "clonedPackages st' = clonedPackages st \<and> (\<exists>ws. events st' = events st @ map WriteFile ws)"
proof -
  from updateExtraFile_cases[OF assms] have "st' = st \<or> (\<exists>new. st' = writeFileSync f new st)"
    by metis
  then show ?thesis
  proof
    assume "st' = st"
    then show ?thesis by (auto intro: exI[of _ "[]"])
  next
    assume "\<exists>new. st' = writeFileSync f new st"
    then show ?thesis by (auto simp: writeFileSync_def intro: exI[of _ "[f]"])
  qed
qed

lemma updateExtraFiles_effect:
  "updateExtraFiles env xs st = Inr (c, st') \<Longrightarrow>
     clonedPackages st' = clonedPackages st \<and> (\<exists>ws. events st' = events st @ map WriteFile ws)"
proof (induction xs arbitrary: st)
  case Nil
  then show ?case by (auto intro: exI[of _ "[]"])
next
  case (Cons x xs)
  show ?case
  proof (cases "fileExistsSync (files st) x")
    case False
    with Cons.prems show ?thesis by (auto intro: exI[of _ "[]"])
  next
    case True
    with Cons.prems obtain st1 where
      s: "updateExtraFile env x st = Inr st1" "updateExtraFiles env xs st1 = Inr (c, st')"
      by (auto split: sum.splits)
    from updateExtraFile_effect[OF s(1)] obtain ws1 where
      "clonedPackages st1 = clonedPackages st" "events st1 = events st @ map WriteFile ws1"
      by blast
    moreover from Cons.IH[OF s(2)] obtain ws2 where
      "clonedPackages st' = clonedPackages st1" "events st' = events st1 @ map WriteFile ws2"
      by blast
    ultimately show ?thesis by (auto intro: exI[of _ "ws1 @ ws2"])
  qed
qed

lemma finishRun_effect:
  assumes "finishRun env options code s = Inr r"
  shows "clonedPackages (run (final r)) = clonedPackages (run s)
       \<and> (\<exists>installed ws. events (run (final r)) = events (run s) @ map NpmInstall installed @ map WriteFile ws)
       \<and> packageFolderPathsVisited (final r) = packageFolderPathsVisited s
       \<and> foldersUpdated (final r) = foldersUpdated s"
proof -
  define installed where
    "installed = takeWhile (\<lambda>f. npmInstall env f = 0) (folderPathsToRunNPMInstallIn s)
                 @ take 1 (dropWhile (\<lambda>f. npmInstall env f = 0) (folderPathsToRunNPMInstallIn s))"
  obtain code1 where
    i: "runNPMInstalls env (folderPathsToRunNPMInstallIn s) code (events (run s)) =
          (code1, events (run s) @ map NpmInstall installed)"
    by (simp add: runNPMInstalls_trace installed_def)
  let ?st = "(run s)\<lparr>events := events (run s) @ map NpmInstall installed\<rparr>"
  have f: "\<exists>st'. final r = s\<lparr>run := st'\<rparr>
            \<and> (st' = ?st \<or> (\<exists>xs code2. updateExtraFiles env xs ?st = Inr (code2, st')))"
  proof (cases "extraFilesToUpdate options")
    case None
    with assms i show ?thesis by (auto simp: finishRun_def Let_def)
  next
    case (Some xs)
    show ?thesis
    proof (cases "code1 = 0")
      case False
      with assms i Some show ?thesis by (auto simp: finishRun_def Let_def)
    next
      case True
      with assms i Some obtain code2 st' where
        "updateExtraFiles env xs ?st = Inr (code2, st')" "final r = s\<lparr>run := st'\<rparr>"
        by (auto simp: finishRun_def Let_def split: sum.splits)
      then show ?thesis by blast
    qed
  qed
  then obtain st' where
    st': "final r = s\<lparr>run := st'\<rparr>"
         "st' = ?st \<or> (\<exists>xs code2. updateExtraFiles env xs ?st = Inr (code2, st'))"
    by blast
  from st'(2) have "clonedPackages st' = clonedPackages (run s)
       \<and> (\<exists>ws. events st' = events (run s) @ map NpmInstall installed @ map WriteFile ws)"
  proof
    assume "st' = ?st"
    then show ?thesis by (auto intro: exI[of _ "[]"])
  next
    assume "\<exists>xs code2. updateExtraFiles env xs ?st = Inr (code2, st')"
    then obtain xs code2 where "updateExtraFiles env xs ?st = Inr (code2, st')" by blast
    from updateExtraFiles_effect[OF this] show ?thesis by auto
  qed
  with st'(1) show ?thesis by auto
qed

lemma changeClonedDependenciesTo_cases:
  assumes "changeClonedDependenciesTo env fs packagePath ty options = Some (Inr r)"
  obtains code cache toVisit s where
    "addPackagePaths env fs options (packagePathsToAdd packagePath options) ([], []) = Inr (code, cache, toVisit)"
    "visitPackageFolders env ty (optionRecursive env options) (optionForceInstall env options) code
       \<lparr>run = \<lparr>files = fs, clonedPackages = cache, events = []\<rparr>,
        packageFolderPathsToVisit = toVisit,
        packageFolderPathsVisited = [],
        folderPathsToRunNPMInstallIn = [],
        foldersUpdated = []\<rparr> = Some (Inr s)"
    "finishRun env options code s = Inr r"
  using assms
  by (auto simp: changeClonedDependenciesTo_def split: sum.splits option.splits)

lemma changeClonedDependenciesTo_runInv:
  assumes "changeClonedDependenciesTo env fs packagePath ty options = Some (Inr r)"
  shows "runInv env ty (run (final r))"
  using assms
proof (cases rule: changeClonedDependenciesTo_cases)
  case (1 code cache toVisit s)
  have "runInv env ty \<lparr>files = fs, clonedPackages = cache, events = []\<rparr>"
    by (simp add: runInv_def queriesConsistent_def changesConsistent_def)
  with visitPackageFolders_runInv[OF 1(2)] have i: "runInv env ty (run s)" by simp
  from finishRun_effect[OF 1(3)] obtain installed ws where
    e: "clonedPackages (run (final r)) = clonedPackages (run s)"
       "events (run (final r)) = events (run s) @ (map NpmInstall installed @ map WriteFile ws)"
    by auto
  show ?thesis
    by (rule runInv_more_events[OF i e]) auto
qed

subsection \<open>The queue of the main loop\<close>

lemma queueClonedDependency_distinct:
  "distinct (visited @ toVisit) \<Longrightarrow> distinct (visited @ queueClonedDependency cache visited toVisit n)"
  by (auto simp: queueClonedDependency_def contains_def split: option.splits)

lemma foldl_queueClonedDependency_distinct:
  "distinct (visited @ toVisit) \<Longrightarrow>
     distinct (visited @ foldl (queueClonedDependency cache visited) toVisit names)"
proof (induction names arbitrary: toVisit)
  case Nil
  then show ?case by simp
next
  case (Cons n names)
  from Cons.IH[OF queueClonedDependency_distinct[OF Cons.prems]] show ?case
    by (simp only: foldl.simps)
qed

lemma visitPackageFolder_distinct:
  assumes "packageFolderPathsToVisit s = folder # rest"
    and "visitPackageFolder env ty rec force folder rest s = Some (Inr s')"
    and "distinct (packageFolderPathsVisited s @ packageFolderPathsToVisit s)"
  shows "distinct (packageFolderPathsVisited s' @ packageFolderPathsToVisit s')"
  using assms(2)
proof (cases rule: visitPackageFolder_cases)
  case (1 packageJson dc ddc install st)
  have "distinct ((packageFolderPathsVisited s @ [folder]) @ rest)"
    using assms(1,3) by simp
  from foldl_queueClonedDependency_distinct[OF this] this 1(2) show ?thesis
    by simp
qed

lemma visitPackageFolders_distinct:
  assumes "visitPackageFolders env ty rec force code s = Some (Inr s')"
    and "distinct (packageFolderPathsVisited s @ packageFolderPathsToVisit s)"
  shows "distinct (packageFolderPathsVisited s')"
proof -
  have "distinct (packageFolderPathsVisited s @ packageFolderPathsToVisit s) \<longrightarrow>
        distinct (packageFolderPathsVisited s' @ packageFolderPathsToVisit s')"
  proof (rule visitPackageFolders_lift
          [where Q = "\<lambda>s s'. distinct (packageFolderPathsVisited s @ packageFolderPathsToVisit s) \<longrightarrow>
                              distinct (packageFolderPathsVisited s' @ packageFolderPathsToVisit s')",
           OF assms(1)])
    fix folder rest s s'
    assume "packageFolderPathsToVisit s = folder # rest"
      and "visitPackageFolder env ty rec force folder rest s = Some (Inr s')"
    then show "distinct (packageFolderPathsVisited s @ packageFolderPathsToVisit s) \<longrightarrow>
               distinct (packageFolderPathsVisited s' @ packageFolderPathsToVisit s')"
      using visitPackageFolder_distinct by blast
  qed blast+
  with assms(2) show ?thesis by simp
qed

lemma addPackagePaths_toVisit:
  "addPackagePaths env fs options paths (cache, toVisit) = Inr (code, cache', toVisit') \<Longrightarrow>
     \<exists>k. toVisit' = toVisit @ map (requestedFolder env) (take k paths)"
proof (induction paths arbitrary: cache toVisit)
  case Nil
  then show ?case by simp
next
  case (Cons p paths)
  show ?case
  proof (cases "truthy (findPackageJsonFileSync env p)")
    case False
    with Cons.prems show ?thesis by (auto intro: exI[of _ 0])
  next
    case True
    with Cons.prems obtain cache1 where
      "addPackagePaths env fs options paths (cache1, toVisit @ [requestedFolder env p]) =
         Inr (code, cache', toVisit')"
      by (auto simp: Let_def requestedFolder_def split: sum.splits)
    from Cons.IH[OF this] obtain k where
      "toVisit' = (toVisit @ [requestedFolder env p]) @ map (requestedFolder env) (take k paths)"
      by blast
    then show ?thesis by (auto intro: exI[of _ "Suc k"])
  qed
qed

lemma visited_distinct_for_distinct_requests:
  assumes "changeClonedDependenciesTo env fs packagePath ty options = Some (Inr r)"
    and "distinct (map (requestedFolder env) (packagePathsToAdd packagePath options))"
  shows "distinct (packageFolderPathsVisited (final r))"
  using assms(1)
proof (cases rule: changeClonedDependenciesTo_cases)
  case (1 code cache toVisit s)
  from addPackagePaths_toVisit[OF 1(1)] obtain k where
    "toVisit = map (requestedFolder env) (take k (packagePathsToAdd packagePath options))"
    by auto
  then have "distinct toVisit"
    using assms(2) by (simp add: take_map[symmetric] distinct_take)
  with visitPackageFolders_distinct[OF 1(2)] have "distinct (packageFolderPathsVisited s)"
    by simp
  with finishRun_effect[OF 1(3)] show ?thesis by simp
qed

subsection \<open>Manifests and lock files written\<close>

lemma manifestWrites_append [simp]:
  "manifestWrites (xs @ ys) = manifestWrites xs @ manifestWrites ys"
  by (simp add: manifestWrites_def)

lemma lockWrites_append [simp]:
  "lockWrites (xs @ ys) = lockWrites xs @ lockWrites ys"
  by (simp add: lockWrites_def)

lemma manifestWrites_simps [simp]:
  "manifestWrites [] = []"
  "manifestWrites (WritePackageJson p # es) = p # manifestWrites es"
  "manifestWrites (WritePackageLockJson p # es) = manifestWrites es"
  "manifestWrites (NpmView n # es) = manifestWrites es"
  "manifestWrites (LogChanging n a b # es) = manifestWrites es"
  "manifestWrites (NpmInstall p # es) = manifestWrites es"
  "manifestWrites (WriteFile p # es) = manifestWrites es"
  by (simp_all add: manifestWrites_def)

lemma lockWrites_simps [simp]:
  "lockWrites [] = []"
  "lockWrites (WritePackageLockJson p # es) = p # lockWrites es"
  "lockWrites (WritePackageJson p # es) = lockWrites es"
  "lockWrites (NpmView n # es) = lockWrites es"
  "lockWrites (LogChanging n a b # es) = lockWrites es"
  "lockWrites (NpmInstall p # es) = lockWrites es"
  "lockWrites (WriteFile p # es) = lockWrites es"
  by (simp_all add: lockWrites_def)

lemma writes_map_simps [simp]:
  "manifestWrites (map NpmInstall fs) = []" "lockWrites (map NpmInstall fs) = []"
  "manifestWrites (map WriteFile fs) = []" "lockWrites (map WriteFile fs) = []"
  by (induction fs) simp_all

lemma noWrites_refl: "noWrites st st"
  by (simp add: noWrites_def)

lemma noWrites_trans: "noWrites a b \<Longrightarrow> noWrites b c \<Longrightarrow> noWrites a c"
  by (simp add: noWrites_def)

lemma getDependencyTargetVersion_noWrites:
  assumes "getDependencyTargetVersion env cp m ty st = Some (Inr (r, st'))"
  shows "noWrites st st'"
  using assms
  by (cases rule: getDependencyTargetVersion_cases)
     (auto simp: noWrites_def assignTargetVersion_events split: DepedencyType.splits)

lemma updateDependency_noWrites:
  assumes "updateDependency env cp ty m (deps, changed, st) = Some (Inr (deps', changed', st'))"
  shows "noWrites st st'"
  using assms
proof (cases rule: updateDependency_cases)
  case ignored
  then show ?thesis by (simp add: noWrites_refl)
next
  case (kept r)
  then show ?thesis by (simp add: getDependencyTargetVersion_noWrites)
next
  case (replaced target st1)
  from getDependencyTargetVersion_noWrites[OF replaced(2)] replaced(7) show ?thesis
    by (simp add: noWrites_def)
qed

lemma updateDependencies_noWrites:
  assumes "updateDependencies env cp deps ty st = Some (Inr (deps', changed, st'))"
  shows "noWrites st st'"
  apply (rule updateDependencies_lift[where R = noWrites and env = env and cp = cp and ty = ty, OF _ _ _ assms])
    apply (erule updateDependency_noWrites)
   apply (rule noWrites_refl)
  apply (erule noWrites_trans, assumption)
  done

lemma readPackageJsonFileSync_exists:
  "readPackageJsonFileSync fs p = Inr packageJson \<Longrightarrow> fileExistsSync fs p"
  by (auto simp: readPackageJsonFileSync_def fileExistsSync_def split: option.splits FileContents.splits)

lemma fileExistsSync_overwrite:
  "fileExistsSync fs p \<Longrightarrow> fileExistsSync (fs(p \<mapsto> contents)) q = fileExistsSync fs q"
  by (auto simp: fileExistsSync_def split: option.splits)

text \<open>What one folder's update writes.\<close>

lemma updatePackageFolder_writes:
  assumes "updatePackageFolder env ty force folder st = Some (Inr (packageJson', dc, ddc, install, st'))"
  shows "(\<forall>q. fileExistsSync (files st') q = fileExistsSync (files st) q)
       \<and> (dc = [] \<and> ddc = [] \<longrightarrow> noWrites st st')
       \<and> (\<not> (dc = [] \<and> ddc = []) \<longrightarrow>
            manifestWrites (events st') = manifestWrites (events st) @ [joinPath env folder ''package.json'']
            \<and> lockWrites (events st') =
                lockWrites (events st) @
                  (if fileExistsSync (files st) (joinPath env folder ''package-lock.json'')
                   then [joinPath env folder ''package-lock.json''] else []))"
  using assms
proof (cases rule: updatePackageFolder_cases)
  case (1 packageJson found st2 st3)
  let ?p = "joinPath env folder ''package.json''"
  let ?lp = "joinPath env folder ''package-lock.json''"
  let ?st1 = "st\<lparr>clonedPackages := setKey (clonedPackages st) (propertyKey (name packageJson))
                                 (Some (found\<lparr>updated := Some True\<rparr>))\<rparr>"
  have n1: "noWrites st ?st1" by (simp add: noWrites_def)
  have n3: "noWrites st st3"
    using n1 updateDependencies_noWrites[OF 1(3)] updateDependencies_noWrites[OF 1(4)]
    by (blast intro: noWrites_trans)
  have ex: "fileExistsSync (files st) ?p"
    using 1(1) by (rule readPackageJsonFileSync_exists)
  show ?thesis
  proof (cases "dc = [] \<and> ddc = []")
    case True
    with 1(6) n3 show ?thesis by (simp add: noWrites_def)
  next
    case False
    let ?w = "writePackageJsonFileSync packageJson' ?p st3"
    have fw: "files ?w = (files st)(?p \<mapsto> PackageJsonFile packageJson')"
      and ew: "events ?w = events st3 @ [WritePackageJson ?p]"
      using n3 by (simp_all add: writePackageJsonFileSync_def noWrites_def)
    have exw: "fileExistsSync (files ?w) q = fileExistsSync (files st) q" for q
      using fw ex by (simp add: fileExistsSync_overwrite)
    from 1(7)[OF False] show ?thesis
    proof (cases rule: updatePackageLockJson_cases)
      case noLock
      with False exw ew n3 show ?thesis
        by (simp add: noWrites_def)
    next
      case (lock packageLockJson)
      have "fileExistsSync (files st') q = fileExistsSync (files st) q" for q
        using lock(1,3) exw
        by (simp add: writePackageLockJsonFileSync_def fileExistsSync_overwrite)
      moreover have "events st' = events st3 @ [WritePackageJson ?p] @ [WritePackageLockJson ?lp]"
        using lock(3) ew by (simp add: writePackageLockJsonFileSync_def)
      ultimately show ?thesis
        using False lock(1) exw n3 by (simp add: noWrites_def)
    qed
  qed
qed

lemma visitPackageFolder_writesFollowChanges:
  assumes "visitPackageFolder env ty rec force folder rest s = Some (Inr s')"
    and "writesFollowChanges env fs s"
  shows "writesFollowChanges env fs s'"
  using assms(1)
proof (cases rule: visitPackageFolder_cases)
  case (1 packageJson dc ddc install st)
  note w = updatePackageFolder_writes[OF 1(1)]
  have ex: "\<forall>q. fileExistsSync (files (run s)) q = fileExistsSync fs q"
    using assms(2) by (simp add: writesFollowChanges_def)
  show ?thesis
  proof (cases "dc = [] \<and> ddc = []")
    case True
    with w have "noWrites (run s) st" by simp
    with assms(2) 1(2) True w ex show ?thesis
      by (simp add: writesFollowChanges_def noWrites_def)
  next
    case False
    with assms(2) 1(2) w ex show ?thesis
      by (auto simp: writesFollowChanges_def)
  qed
qed

lemma visitPackageFolders_writesFollowChanges:
  assumes "visitPackageFolders env ty rec force code s = Some (Inr s')"
    and "writesFollowChanges env fs s"
  shows "writesFollowChanges env fs s'"
proof -
  have "writesFollowChanges env fs s \<longrightarrow> writesFollowChanges env fs s'"
  proof (rule visitPackageFolders_lift
          [where Q = "\<lambda>s s'. writesFollowChanges env fs s \<longrightarrow> writesFollowChanges env fs s'",
           OF assms(1)])
    fix folder rest s s'
    assume "visitPackageFolder env ty rec force folder rest s = Some (Inr s')"
    then show "writesFollowChanges env fs s \<longrightarrow> writesFollowChanges env fs s'"
      using visitPackageFolder_writesFollowChanges by blast
  qed blast+
  with assms(2) show ?thesis by simp
qed

subsection \<open>Updating a settled manifest changes nothing\<close>

lemma keepsStable_refl: "keepsStable env ty st st"
  by (simp add: keepsStable_def cacheGrows_refl)

lemma keepsStable_trans:
  "keepsStable env ty a b \<Longrightarrow> keepsStable env ty b c \<Longrightarrow> keepsStable env ty a c"
  by (auto simp: keepsStable_def intro: cacheGrows_trans)

lemma stable_same_entry:
  "map_of cache' n = map_of cache n \<Longrightarrow> stable env ty cache' n v = stable env ty cache n v"
  by (simp add: stable_def)

lemma stable_hasKey: "stable env ty cache n v \<Longrightarrow> hasKey cache n"
  by (auto simp: stable_def hasKey_iff split: option.splits)

lemma assignTargetVersion_Local_truthy:
  "truthy (targetVersion (fst (assignTargetVersion env n Local c)))"
  by (simp add: assignTargetVersion_def truthy_def)

lemma getDependencyTargetVersion_keepsStable:
  assumes run: "getDependencyTargetVersion env cp m ty st = Some (Inr (r, st'))"
  shows "keepsStable env ty st st'"
proof -
  have g: "cacheGrows (clonedPackages st) (clonedPackages st')"
    using getDependencyTargetVersion_cacheGrows[OF run] by simp
  have "stable env ty (clonedPackages st') n v" if s: "stable env ty (clonedPackages st) n v" for n v
    using run
  proof (cases rule: getDependencyTargetVersion_cases)
    case (absent visited)
    have "map_of (clonedPackages st') n = map_of (clonedPackages st) n"
      using absent(3) stable_hasKey[OF s] by (auto simp: hasKey_iff map_of_setKey)
    from stable_same_entry[OF this] s show ?thesis by simp
  next
    case (cached clone visited)
    have "map_of (clonedPackages st') n = map_of (clonedPackages st) n"
      using cached(4) stable_hasKey[OF s] by (auto simp: hasKey_iff map_of_setKey)
    from stable_same_entry[OF this] s show ?thesis by simp
  next
    case (assigned clone visited)
    let ?c1 = "if hasKey (clonedPackages st) m then clonedPackages st
               else setKey (clonedPackages st) m (Some clone)"
    let ?a = "fst (assignTargetVersion env m ty clone)"
    have c': "clonedPackages st' = setKey ?c1 m (Some ?a)" using assigned(4) by simp
    have e: "map_of ?c1 m = Some (Some clone)"
      using findPackage_entry(1)[OF assigned(1)] by simp
    show ?thesis
    proof (cases "n = m")
      case False
      have "map_of (clonedPackages st') n = map_of (clonedPackages st) n"
        using c' False stable_hasKey[OF s] by (auto simp: hasKey_iff map_of_setKey)
      from stable_same_entry[OF this] s show ?thesis by simp
    next
      case True
      have "hasKey (clonedPackages st) m" using stable_hasKey[OF s] True by simp
      with e have old: "map_of (clonedPackages st) m = Some (Some clone)" by simp
      with s True assigned(2) have l: "ty = Latest" "unresolvable env m clone"
        by (simp_all add: stable_def)
      then have "\<not> truthy (targetVersion ?a)" "unresolvable env m ?a"
        by (simp_all add: unresolvable_def assignTargetVersion_again)
      with c' True l(1) show ?thesis
        by (simp add: stable_def map_of_setKey)
    qed
  qed
  with g show ?thesis by (simp add: keepsStable_def)
qed

lemma keepsStable_events:
  "keepsStable env ty st st' \<Longrightarrow> keepsStable env ty st (st'\<lparr>events := evs\<rparr>)"
  by (simp add: keepsStable_def)

lemma updateDependency_keepsStable:
  assumes "updateDependency env cp ty m (deps, changed, st) = Some (Inr (deps', changed', st'))"
  shows "keepsStable env ty st st'"
  using assms
proof (cases rule: updateDependency_cases)
  case ignored
  then show ?thesis by (simp add: keepsStable_refl)
next
  case (kept r)
  then show ?thesis by (simp add: getDependencyTargetVersion_keepsStable)
next
  case (replaced target st1)
  from getDependencyTargetVersion_keepsStable[OF replaced(2)] replaced(7) show ?thesis
    by (simp add: keepsStable_events)
qed

lemma updateDependenciesLoop_keepsStable:
  assumes "updateDependenciesLoop env cp ty ns (d, ch, st) = Some (Inr (d', ch', st'))"
  shows "keepsStable env ty st st'"
  apply (rule updateDependenciesLoop_lift
           [where R = "keepsStable env ty" and env = env and cp = cp and ty = ty, OF _ _ _ assms])
    apply (erule updateDependency_keepsStable)
   apply (rule keepsStable_refl)
  apply (erule keepsStable_trans, assumption)
  done

lemma updateDependencies_keepsStable:
  assumes "updateDependencies env cp deps ty st = Some (Inr (deps', changed, st'))"
  shows "keepsStable env ty st st'"
  apply (rule updateDependencies_lift
           [where R = "keepsStable env ty" and env = env and cp = cp and ty = ty, OF _ _ _ assms])
    apply (erule updateDependency_keepsStable)
   apply (rule keepsStable_refl)
  apply (erule keepsStable_trans, assumption)
  done

lemma mark_updated_keepsStable:
  assumes "getClonedPackage (clonedPackages st) n = Some found"
  shows "keepsStable env ty st
           (st\<lparr>clonedPackages := setKey (clonedPackages st) n (Some (found\<lparr>updated := Some True\<rparr>))\<rparr>)"
proof -
  have f: "map_of (clonedPackages st) n = Some (Some found)"
    using assms by (simp add: getClonedPackage_Some)
  have u: "unresolvable env k (found\<lparr>updated := Some True\<rparr>) = unresolvable env k found" for k
    by (rule unresolvable_cong) simp
  have "stable env ty (setKey (clonedPackages st) n (Some (found\<lparr>updated := Some True\<rparr>))) k v"
    if "stable env ty (clonedPackages st) k v" for k v
    using that f u by (cases "k = n") (simp_all add: stable_def map_of_setKey)
  then show ?thesis
    using mark_updated_cacheGrows[OF assms] by (simp add: keepsStable_def)
qed

text \<open>After its turn a dependency that is not ignored is stable.\<close>

lemma updateDependency_establishes_stable:
  assumes run: "updateDependency env cp ty n (d, ch, st) = Some (Inr (d', ch', st'))"
    and "\<not> contains (dependenciesToIgnore cp) n"
  shows "stable env ty (clonedPackages st') n (map_of d' n)"
  using run
proof (cases rule: updateDependency_cases)
  case ignored
  with assms(2) show ?thesis by simp
next
  case (replaced target st1)
  from getDependencyTargetVersion_cacheGrows[OF replaced(2)] replaced(3)
  obtain c where "map_of (clonedPackages st1) n = Some (Some c)" "targetVersion c = Some target"
    by (auto simp: truthy_def)
  with replaced(3,5,7) show ?thesis
    by (simp add: stable_def map_of_setKey truthy_def)
next
  case (kept r)
  from kept(2) show ?thesis
  proof (cases rule: getDependencyTargetVersion_cases)
    case (absent visited)
    from findPackage_entry(1)[OF absent(1)] absent(3) show ?thesis
      by (simp add: stable_def)
  next
    case (cached clone visited)
    from findPackage_entry(1)[OF cached(1)] cached(2,3,4) kept(3,4) show ?thesis
      by (auto simp: stable_def)
  next
    case (assigned clone visited)
    let ?a = "fst (assignTargetVersion env n ty clone)"
    have e: "map_of (clonedPackages st') n = Some (Some ?a)"
      using assigned(4) by (simp add: map_of_setKey)
    show ?thesis
    proof (cases "truthy (targetVersion ?a)")
      case True
      with e assigned(3) kept(3,4) show ?thesis by (simp add: stable_def)
    next
      case False
      then have "ty = Latest"
        using assignTargetVersion_Local_truthy[of env n clone] by (cases ty) auto
      with False e show ?thesis
        by (simp add: stable_def unresolvable_def assignTargetVersion_again)
    qed
  qed
qed

lemma keepsStableD:
  "keepsStable env ty st st' \<Longrightarrow> stable env ty (clonedPackages st) n v \<Longrightarrow>
     stable env ty (clonedPackages st') n v"
  by (simp add: keepsStable_def)

lemma updateDependenciesLoop_unchanged:
  "updateDependenciesLoop env cp ty ns (d, ch, st) = Some (Inr (d', ch', st')) \<Longrightarrow> n \<notin> set ns \<Longrightarrow>
     map_of d' n = map_of d n"
proof (induction ns arbitrary: d ch st)
  case Nil
  then show ?case by simp
next
  case (Cons m ns)
  from Cons.prems(1) obtain d1 ch1 st1 where
    s1: "updateDependency env cp ty m (d, ch, st) = Some (Inr (d1, ch1, st1))" and
    r1: "updateDependenciesLoop env cp ty ns (d1, ch1, st1) = Some (Inr (d', ch', st'))"
    by (auto split: option.splits sum.splits)
  have "map_of d1 n = map_of d n"
    using s1 Cons.prems(2) by (cases rule: updateDependency_cases) (auto simp: map_of_setKey)
  with Cons.IH[OF r1] Cons.prems(2) show ?case by simp
qed

lemma updateDependenciesLoop_keys:
  "updateDependenciesLoop env cp ty ns (d, ch, st) = Some (Inr (d', ch', st')) \<Longrightarrow>
     set ns \<subseteq> set (keys d) \<Longrightarrow> keys d' = keys d"
proof (induction ns arbitrary: d ch st)
  case Nil
  then show ?case by simp
next
  case (Cons m ns)
  from Cons.prems(1) obtain d1 ch1 st1 where
    s1: "updateDependency env cp ty m (d, ch, st) = Some (Inr (d1, ch1, st1))" and
    r1: "updateDependenciesLoop env cp ty ns (d1, ch1, st1) = Some (Inr (d', ch', st'))"
    by (auto split: option.splits sum.splits)
  have "keys d1 = keys d"
    using s1 Cons.prems(2) by (cases rule: updateDependency_cases) (auto simp: keys_setKey_present)
  with Cons.IH[OF r1] Cons.prems(2) show ?case by simp
qed

text \<open>After the loop every dependency that is not ignored is stable.\<close>

lemma updateDependenciesLoop_establishes_stable:
  "updateDependenciesLoop env cp ty ns (d, ch, st) = Some (Inr (d', ch', st')) \<Longrightarrow>
     \<forall>n\<in>set ns. \<not> contains (dependenciesToIgnore cp) n \<longrightarrow>
        stable env ty (clonedPackages st') n (map_of d' n)"
proof (induction ns arbitrary: d ch st)
  case Nil
  then show ?case by simp
next
  case (Cons m ns)
  from Cons.prems(1) obtain d1 ch1 st1 where
    s1: "updateDependency env cp ty m (d, ch, st) = Some (Inr (d1, ch1, st1))" and
    r1: "updateDependenciesLoop env cp ty ns (d1, ch1, st1) = Some (Inr (d', ch', st'))"
    by (auto split: option.splits sum.splits)
  show ?case
  proof (intro ballI impI)
    fix n
    assume n: "n \<in> set (m # ns)" "\<not> contains (dependenciesToIgnore cp) n"
    show "stable env ty (clonedPackages st') n (map_of d' n)"
    proof (cases "n \<in> set ns")
      case True
      with Cons.IH[OF r1] n(2) show ?thesis by blast
    next
      case False
      with n(1) have nm: "n = m" by simp
      have "stable env ty (clonedPackages st1) n (map_of d1 n)"
        using updateDependency_establishes_stable[OF s1] n(2) nm by simp
      then have "stable env ty (clonedPackages st') n (map_of d1 n)"
        using updateDependenciesLoop_keepsStable[OF r1] keepsStableD by blast
      with updateDependenciesLoop_unchanged[OF r1 False] show ?thesis by simp
    qed
  qed
qed

text \<open>Resolving a stable dependency gives nothing or its present version.\<close>

lemma stable_resolution:
  assumes s: "stable env ty (clonedPackages st) n v"
    and run: "getDependencyTargetVersion env cp n ty st = Some (Inr (r, st'))"
  shows "\<not> truthy r \<or> r = v"
proof -
  have k: "hasKey (clonedPackages st) n"
    using s by (auto simp: stable_def hasKey_iff split: option.splits)
  from run show ?thesis
  proof (cases rule: getDependencyTargetVersion_cases)
    case (absent visited)
    then show ?thesis by (simp add: truthy_def)
  next
    case (cached clone visited)
    from findPackage_entry(1)[OF cached(1)] k
    have "map_of (clonedPackages st) n = Some (Some clone)" by simp
    with s cached(2,3) show ?thesis by (simp add: stable_def)
  next
    case (assigned clone visited)
    from findPackage_entry(1)[OF assigned(1)] k
    have "map_of (clonedPackages st) n = Some (Some clone)" by simp
    with s assigned(2) have "ty = Latest" "unresolvable env n clone"
      by (simp_all add: stable_def)
    with assigned(3) show ?thesis by (simp add: unresolvable_def)
  qed
qed

text \<open>The loop changes nothing when every dependency that is not ignored is stable.\<close>

lemma updateDependenciesLoop_stable_unchanged:
  "updateDependenciesLoop env cp ty ns (d, ch, st) = Some (Inr (d', ch', st')) \<Longrightarrow>
     \<forall>n\<in>set ns. \<not> contains (dependenciesToIgnore cp) n \<longrightarrow>
        stable env ty (clonedPackages st) n (map_of d n) \<Longrightarrow>
     d' = d \<and> ch' = ch"
proof (induction ns arbitrary: st)
  case Nil
  then show ?case by simp
next
  case (Cons m ns)
  from Cons.prems(1) obtain d1 ch1 st1 where
    s1: "updateDependency env cp ty m (d, ch, st) = Some (Inr (d1, ch1, st1))" and
    r1: "updateDependenciesLoop env cp ty ns (d1, ch1, st1) = Some (Inr (d', ch', st'))"
    by (auto split: option.splits sum.splits)
  have same: "d1 = d \<and> ch1 = ch"
    using s1
  proof (cases rule: updateDependency_cases)
    case (replaced target st0)
    from Cons.prems(2) replaced(1) have "stable env ty (clonedPackages st) m (map_of d m)"
      by simp
    from stable_resolution[OF this replaced(2)] replaced(3,4) show ?thesis
      by (simp add: truthy_def)
  qed simp_all
  have "\<forall>n\<in>set ns. \<not> contains (dependenciesToIgnore cp) n \<longrightarrow>
          stable env ty (clonedPackages st1) n (map_of d n)"
    using Cons.prems(2) updateDependency_keepsStable[OF s1] keepsStableD by (metis list.set_intros(2))
  with Cons.IH[of st1] r1 same show ?case by simp
qed

lemma settledDependencies_keeps:
  "keepsStable env ty st st' \<Longrightarrow> settledDependencies env ty (clonedPackages st) ignored deps \<Longrightarrow>
     settledDependencies env ty (clonedPackages st') ignored deps"
  by (cases deps) (auto simp: settledDependencies_def dest: keepsStableD)

lemma cacheGrows_clone:
  assumes "cacheGrows c c'" and "getClonedPackage c n = Some x"
  shows "\<exists>x'. getClonedPackage c' n = Some x' \<and> cloneGrows x x'"
proof -
  from assms(2) have "map_of c n = Some (Some x)" by (simp add: getClonedPackage_Some)
  with assms(1) obtain x' where "map_of c' n = Some (Some x')" "cloneGrows x x'"
    unfolding cacheGrows_def by blast
  then show ?thesis by (auto simp: getClonedPackage_Some)
qed

lemma settled_keeps:
  assumes k: "keepsStable env ty st st'" and s: "settled env ty (clonedPackages st) packageJson"
  shows "settled env ty (clonedPackages st') packageJson"
proof -
  from s obtain found where
    f: "getClonedPackage (clonedPackages st) (propertyKey (name packageJson)) = Some found"
       "settledDependencies env ty (clonedPackages st) (dependenciesToIgnore found) (dependencies packageJson)"
       "settledDependencies env ty (clonedPackages st) (dependenciesToIgnore found) (devDependencies packageJson)"
    by (auto simp: settled_def)
  from k have "cacheGrows (clonedPackages st) (clonedPackages st')" by (simp add: keepsStable_def)
  from cacheGrows_clone[OF this f(1)] obtain found' where
    f': "getClonedPackage (clonedPackages st') (propertyKey (name packageJson)) = Some found'"
        "dependenciesToIgnore found' = dependenciesToIgnore found"
    by (auto simp: cloneGrows_def)
  with settledDependencies_keeps[OF k f(2)] settledDependencies_keeps[OF k f(3)]
  show ?thesis by (auto simp: settled_def)
qed

lemma updateDependencies_settled_unchanged:
  assumes "updateDependencies env cp deps ty st = Some (Inr (deps', changed, st'))"
    and "settledDependencies env ty (clonedPackages st) (dependenciesToIgnore cp) deps"
  shows "deps' = deps \<and> changed = []"
  using assms(1)
proof (cases rule: updateDependencies_cases)
  case undefined
  then show ?thesis by simp
next
  case (defined d d')
  from assms(2) defined(1)
  have "\<forall>n\<in>set (keys d). \<not> contains (dependenciesToIgnore cp) n \<longrightarrow>
          stable env ty (clonedPackages st) n (map_of d n)"
    by (simp add: settledDependencies_def)
  from updateDependenciesLoop_stable_unchanged[OF defined(3) this] defined(1,2)
  show ?thesis by simp
qed

lemma updateDependencies_establishes_settled:
  assumes "updateDependencies env cp deps ty st = Some (Inr (deps', changed, st'))"
  shows "settledDependencies env ty (clonedPackages st') (dependenciesToIgnore cp) deps'"
  using assms
proof (cases rule: updateDependencies_cases)
  case undefined
  then show ?thesis by (simp add: settledDependencies_def)
next
  case (defined d d')
  have "keys d' = keys d"
    using updateDependenciesLoop_keys[OF defined(3)] by simp
  with updateDependenciesLoop_establishes_stable[OF defined(3)] defined(2)
  show ?thesis by (simp add: settledDependencies_def)
qed

lemma updatePackageFolder_writtenSettled:
  assumes run: "updatePackageFolder env ty force folder st = Some (Inr (packageJson', dc, ddc, install, st'))"
    and inv: "writtenSettled env ty st"
  shows "writtenSettled env ty st'"
  using run
proof (cases rule: updatePackageFolder_cases)
  case (1 packageJson found st2 st3)
  let ?p = "joinPath env folder ''package.json''"
  let ?nm = "propertyKey (name packageJson)"
  let ?cp = "found\<lparr>updated := Some True\<rparr>"
  let ?st1 = "st\<lparr>clonedPackages := setKey (clonedPackages st) ?nm (Some ?cp)\<rparr>"
  have k1: "keepsStable env ty st ?st1" using mark_updated_keepsStable[OF 1(2)] .
  have k2: "keepsStable env ty ?st1 st2" using updateDependencies_keepsStable[OF 1(3)] .
  have k3: "keepsStable env ty st2 st3" using updateDependencies_keepsStable[OF 1(4)] .
  have k03: "keepsStable env ty st st3" using k1 k2 k3 by (blast intro: keepsStable_trans)
  have n03: "noWrites st st3"
    using updateDependencies_noWrites[OF 1(3)] updateDependencies_noWrites[OF 1(4)]
    by (simp add: noWrites_def)
  have manifest: "files st ?p = Some (PackageJsonFile packageJson)"
    using 1(1) by (auto simp: readPackageJsonFileSync_def split: option.splits FileContents.splits)
  have keep3: "writtenSettled env ty st3"
    unfolding writtenSettled_def
  proof (intro conjI ballI allI impI)
    show "distinct (manifestWrites (events st3))"
      using inv n03 by (simp add: writtenSettled_def noWrites_def)
  next
    fix q pj
    assume "q \<in> set (manifestWrites (events st3))" "files st3 q = Some (PackageJsonFile pj)"
    with inv n03 have "settled env ty (clonedPackages st) pj"
      by (simp add: writtenSettled_def noWrites_def)
    then show "settled env ty (clonedPackages st3) pj" using settled_keeps[OF k03] by blast
  qed
  show ?thesis
  proof (cases "dc = [] \<and> ddc = []")
    case True
    with 1(6) keep3 show ?thesis by simp
  next
    case False
    have fresh: "?p \<notin> set (manifestWrites (events st))"
    proof
      assume "?p \<in> set (manifestWrites (events st))"
      with inv manifest have "settled env ty (clonedPackages st) packageJson"
        by (simp add: writtenSettled_def)
      with 1(2) have
        s: "settledDependencies env ty (clonedPackages st) (dependenciesToIgnore found) (dependencies packageJson)"
           "settledDependencies env ty (clonedPackages st) (dependenciesToIgnore found) (devDependencies packageJson)"
        by (auto simp: settled_def)
      have "settledDependencies env ty (clonedPackages ?st1) (dependenciesToIgnore ?cp) (dependencies packageJson)"
        using settledDependencies_keeps[OF k1 s(1)] by simp
      from updateDependencies_settled_unchanged[OF 1(3) this] have "dc = []" by simp
      moreover
      have "settledDependencies env ty (clonedPackages st2) (dependenciesToIgnore ?cp) (devDependencies packageJson)"
        using settledDependencies_keeps[OF keepsStable_trans[OF k1 k2] s(2)] by simp
      from updateDependencies_settled_unchanged[OF 1(4) this] have "ddc = []" by simp
      ultimately show False using False by simp
    qed
    let ?w = "writePackageJsonFileSync packageJson' ?p st3"
    let ?lp = "joinPath env folder ''package-lock.json''"
    have st': "clonedPackages st' = clonedPackages st3
        \<and> manifestWrites (events st') = manifestWrites (events st) @ [?p]
        \<and> (\<forall>q pj. files st' q = Some (PackageJsonFile pj) \<longrightarrow>
              (q = ?p \<and> pj = packageJson') \<or> (q \<noteq> ?p \<and> files st q = Some (PackageJsonFile pj)))"
      using 1(7)[OF False]
    proof (cases rule: updatePackageLockJson_cases)
      case noLock
      with n03 show ?thesis
        by (auto simp: writePackageJsonFileSync_def noWrites_def split: if_splits)
    next
      case (lock packageLockJson)
      with n03 show ?thesis
        by (auto simp: writePackageJsonFileSync_def writePackageLockJsonFileSync_def noWrites_def
                 split: if_splits)
    qed
    have new: "settled env ty (clonedPackages st3) packageJson'"
    proof -
      have "getClonedPackage (clonedPackages ?st1) ?nm = Some ?cp"
        by (simp add: getClonedPackage_setKey)
      moreover have "cacheGrows (clonedPackages ?st1) (clonedPackages st3)"
        using keepsStable_trans[OF k2 k3] by (simp add: keepsStable_def)
      ultimately obtain found3 where
        f3: "getClonedPackage (clonedPackages st3) ?nm = Some found3"
            "dependenciesToIgnore found3 = dependenciesToIgnore ?cp"
        using cacheGrows_clone by (fastforce simp: cloneGrows_def)
      have "settledDependencies env ty (clonedPackages st3) (dependenciesToIgnore ?cp) (dependencies packageJson')"
        using settledDependencies_keeps[OF k3 updateDependencies_establishes_settled[OF 1(3)]] .
      moreover
      have "settledDependencies env ty (clonedPackages st3) (dependenciesToIgnore ?cp) (devDependencies packageJson')"
        using updateDependencies_establishes_settled[OF 1(4)] .
      ultimately show ?thesis
        using f3 1(5) by (auto simp: settled_def)
    qed
    show ?thesis
      unfolding writtenSettled_def
    proof (intro conjI ballI allI impI)
      show "distinct (manifestWrites (events st'))"
        using st' inv fresh by (simp add: writtenSettled_def)
    next
      fix q pj
      assume q: "q \<in> set (manifestWrites (events st'))" "files st' q = Some (PackageJsonFile pj)"
      from st' q(2) consider "q = ?p" "pj = packageJson'"
        | "q \<noteq> ?p" "files st q = Some (PackageJsonFile pj)"
        by blast
      then show "settled env ty (clonedPackages st') pj"
      proof cases
        case 1
        with new st' show ?thesis by simp
      next
        case 2
        with q(1) st' have "q \<in> set (manifestWrites (events st))" by simp
        with inv 2(2) have "settled env ty (clonedPackages st) pj"
          by (simp add: writtenSettled_def)
        with settled_keeps[OF k03] st' show ?thesis by simp
      qed
    qed
  qed
qed

lemma visitPackageFolders_writtenSettled:
  assumes "visitPackageFolders env ty rec force code s = Some (Inr s')"
    and "writtenSettled env ty (run s)"
  shows "writtenSettled env ty (run s')"
proof -
  have "writtenSettled env ty (run s) \<longrightarrow> writtenSettled env ty (run s')"
  proof (rule visitPackageFolders_lift
          [where Q = "\<lambda>s s'. writtenSettled env ty (run s) \<longrightarrow> writtenSettled env ty (run s')",
           OF assms(1)])
    fix folder rest s s'
    assume "visitPackageFolder env ty rec force folder rest s = Some (Inr s')"
    then show "writtenSettled env ty (run s) \<longrightarrow> writtenSettled env ty (run s')"
    proof (cases rule: visitPackageFolder_cases)
      case (1 packageJson dc ddc install st)
      from updatePackageFolder_writtenSettled[OF 1(1)] 1(2) show ?thesis by simp
    qed
  qed blast+
  with assms(2) show ?thesis by simp
qed

lemma changed_folder_paths:
  "[joinPath env folder fileName. (folder, changed) \<leftarrow> updates, changed \<noteq> []] =
     map (\<lambda>folder. joinPath env folder fileName) [folder. (folder, changed) \<leftarrow> updates, changed \<noteq> []]"
  by (induction updates) auto

subsection \<open>The names whose version is replaced\<close>

lemma updateDependency_stable_unchanged:
  assumes "updateDependency env cp ty m (d, ch, st) = Some (Inr (d1, ch1, st1))"
    and "\<not> contains (dependenciesToIgnore cp) m \<longrightarrow> stable env ty (clonedPackages st) m (map_of d m)"
  shows "d1 = d \<and> ch1 = ch"
  using assms(1)
proof (cases rule: updateDependency_cases)
  case (replaced target st0)
  with assms(2) have "stable env ty (clonedPackages st) m (map_of d m)" by simp
  from stable_resolution[OF this replaced(2)] replaced(3,4) show ?thesis
    by (simp add: truthy_def)
qed simp_all

lemma updateDependency_other:
  assumes "updateDependency env cp ty m (d, ch, st) = Some (Inr (d1, ch1, st1))" and "n \<noteq> m"
  shows "map_of d1 n = map_of d n"
  using assms by (cases rule: updateDependency_cases) (auto simp: map_of_setKey)

lemma updateDependenciesLoop_changes:
  assumes "updateDependenciesLoop env cp ty ns (d, ch, st) = Some (Inr (d', ch', st'))"
    and "\<forall>n\<in>P. \<not> contains (dependenciesToIgnore cp) n \<longrightarrow>
           stable env ty (clonedPackages st) n (map_of d n)"
  shows "\<exists>new. ch' = ch @ new \<and> distinct new \<and> set new \<subseteq> set ns - P
       \<and> (\<forall>n\<in>set new. \<not> contains (dependenciesToIgnore cp) n \<and> map_of d' n \<noteq> map_of d n
             \<and> (\<exists>c. map_of (clonedPackages st') n = Some (Some c) \<and> truthy (targetVersion c)
                     \<and> map_of d' n = targetVersion c))
       \<and> (\<forall>n. n \<notin> set new \<longrightarrow> map_of d' n = map_of d n)"
  using assms
proof (induction ns arbitrary: d ch st P)
  case Nil
  then show ?case by simp
next
  case (Cons m ns)
  from Cons.prems(1) obtain d1 ch1 st1 where
    s1: "updateDependency env cp ty m (d, ch, st) = Some (Inr (d1, ch1, st1))" and
    r1: "updateDependenciesLoop env cp ty ns (d1, ch1, st1) = Some (Inr (d', ch', st'))"
    by (auto split: option.splits sum.splits)
  have k1: "keepsStable env ty st st1" using updateDependency_keepsStable[OF s1] .
  let ?P' = "insert m P"
  have done1: "\<forall>n\<in>?P'. \<not> contains (dependenciesToIgnore cp) n \<longrightarrow>
                 stable env ty (clonedPackages st1) n (map_of d1 n)"
  proof (intro ballI impI)
    fix n
    assume n: "n \<in> ?P'" "\<not> contains (dependenciesToIgnore cp) n"
    show "stable env ty (clonedPackages st1) n (map_of d1 n)"
    proof (cases "n = m")
      case True
      with updateDependency_establishes_stable[OF s1] n(2) show ?thesis by simp
    next
      case False
      with n Cons.prems(2) have "stable env ty (clonedPackages st) n (map_of d n)" by simp
      with keepsStableD[OF k1] updateDependency_other[OF s1 False] show ?thesis by simp
    qed
  qed
  from Cons.IH[OF r1 done1] obtain new1 where
    ih: "ch' = ch1 @ new1" "distinct new1" "set new1 \<subseteq> set ns - ?P'"
        "\<forall>n\<in>set new1. \<not> contains (dependenciesToIgnore cp) n \<and> map_of d' n \<noteq> map_of d1 n
             \<and> (\<exists>c. map_of (clonedPackages st') n = Some (Some c) \<and> truthy (targetVersion c)
                     \<and> map_of d' n = targetVersion c)"
        "\<forall>n. n \<notin> set new1 \<longrightarrow> map_of d' n = map_of d1 n"
    by blast
  have m1: "m \<notin> set new1" using ih(3) by auto
  have other: "map_of d1 n = map_of d n" if "n \<noteq> m" for n
    using updateDependency_other[OF s1 that] .
  show ?case
  proof (cases "d1 = d \<and> ch1 = ch")
    case True
    have "set new1 \<subseteq> set (m # ns) - P" using ih(3) by auto
    with True ih(1,2,4,5) show ?thesis by auto
  next
    case False
    from s1 False obtain target st0 where
      rep: "\<not> contains (dependenciesToIgnore cp) m"
           "getDependencyTargetVersion env cp m ty st = Some (Inr (Some target, st0))"
           "target \<noteq> []" "map_of d m \<noteq> Some target"
           "d1 = setKey d m target" "ch1 = ch @ [m]"
           "clonedPackages st1 = clonedPackages st0"
      by (cases rule: updateDependency_cases) auto
    have mP: "m \<notin> P"
    proof
      assume "m \<in> P"
      with Cons.prems(2) rep(1) have "stable env ty (clonedPackages st) m (map_of d m)" by simp
      with updateDependency_stable_unchanged[OF s1] False show False by simp
    qed
    from getDependencyTargetVersion_cacheGrows[OF rep(2)] rep(3,7)
    obtain c where c: "map_of (clonedPackages st1) m = Some (Some c)" "targetVersion c = Some target"
      by (auto simp: truthy_def)
    from updateDependenciesLoop_cacheGrows[OF r1] c(1)
    obtain c' where c': "map_of (clonedPackages st') m = Some (Some c')" "cloneGrows c c'"
      unfolding cacheGrows_def by blast
    have tv: "targetVersion c' = Some target" "truthy (targetVersion c')"
      using c' c(2) rep(3) by (auto simp: cloneGrows_def truthy_def)
    have dm: "map_of d' m = Some target"
      using ih(5) m1 rep(5) by (simp add: map_of_setKey)
    let ?new = "m # new1"
    have 1: "ch' = ch @ ?new" using ih(1) rep(6) by simp
    have 2: "distinct ?new" using ih(2) m1 by simp
    have 3: "set ?new \<subseteq> set (m # ns) - P" using ih(3) mP by auto
    have 4: "\<forall>n\<in>set ?new. \<not> contains (dependenciesToIgnore cp) n \<and> map_of d' n \<noteq> map_of d n
             \<and> (\<exists>c. map_of (clonedPackages st') n = Some (Some c) \<and> truthy (targetVersion c)
                     \<and> map_of d' n = targetVersion c)"
    proof
      fix n assume "n \<in> set ?new"
      then consider "n = m" | "n \<in> set new1" "n \<noteq> m" using m1 by auto
      then show "\<not> contains (dependenciesToIgnore cp) n \<and> map_of d' n \<noteq> map_of d n
             \<and> (\<exists>c. map_of (clonedPackages st') n = Some (Some c) \<and> truthy (targetVersion c)
                     \<and> map_of d' n = targetVersion c)"
      proof cases
        case 1
        with rep(1,4) dm c' tv show ?thesis by auto
      next
        case 2
        with ih(4) other[OF 2(2)] show ?thesis by auto
      qed
    qed
    have 5: "\<forall>n. n \<notin> set ?new \<longrightarrow> map_of d' n = map_of d n"
      using ih(5) other by auto
    from 1 2 3 4 5 show ?thesis by blast
  qed
qed

subsection \<open>The run after the main loop\<close>

lemma finishRun_scheduled:
  "finishRun env options code s = Inr r \<Longrightarrow>
     folderPathsToRunNPMInstallIn (final r) = folderPathsToRunNPMInstallIn s"
  by (auto simp: finishRun_def Let_def split: prod.splits sum.splits option.splits if_splits)

lemma updateExtraFiles_append:
  "updateExtraFiles env (before @ rest) st =
     (case updateExtraFiles env before st of
        Inl e \<Rightarrow> Inl e
      | Inr (c, st') \<Rightarrow> if c = 0 then updateExtraFiles env rest st' else Inr (c, st'))"
  by (induction before arbitrary: st) (auto split: sum.splits)

lemma updateDependency_no_installs:
  assumes "updateDependency env cp ty n (deps, changed, st) = Some (Inr (deps', changed', st'))"
  shows "\<forall>f. NpmInstall f \<in> set (events st') \<longrightarrow> NpmInstall f \<in> set (events st)"
  using assms
proof (cases rule: updateDependency_cases)
  case ignored
  then show ?thesis by simp
next
  case (kept r)
  from kept(2) show ?thesis
    by (cases rule: getDependencyTargetVersion_cases)
       (auto simp: assignTargetVersion_events split: DepedencyType.splits)
next
  case (replaced target st1)
  from replaced(2) have "\<forall>f. NpmInstall f \<in> set (events st1) \<longrightarrow> NpmInstall f \<in> set (events st)"
    by (cases rule: getDependencyTargetVersion_cases)
       (auto simp: assignTargetVersion_events split: DepedencyType.splits)
  with replaced(7) show ?thesis by simp
qed

lemma visitPackageFolders_no_installs:
  assumes "visitPackageFolders env ty rec force code s = Some (Inr s')"
  shows "\<forall>f. NpmInstall f \<in> set (events (run s')) \<longrightarrow> NpmInstall f \<in> set (events (run s))"
proof (rule visitPackageFolders_run_lift
         [where R = "\<lambda>st st'. \<forall>f. NpmInstall f \<in> set (events st') \<longrightarrow> NpmInstall f \<in> set (events st)",
          OF _ _ _ _ _ _ assms])
  fix cp n deps changed st deps' changed' st'
  assume "updateDependency env cp ty n (deps, changed, st) = Some (Inr (deps', changed', st'))"
  then show "\<forall>f. NpmInstall f \<in> set (events st') \<longrightarrow> NpmInstall f \<in> set (events st)"
    by (rule updateDependency_no_installs)
qed (auto simp: writePackageJsonFileSync_def writePackageLockJsonFileSync_def)

text \<open>The seeding and the main loop of a run, taken apart.\<close>

lemma seeded_loop_cases:
  assumes "case seeds of
             Inr (code, cache, toVisit) \<Rightarrow>
               (case loop code cache toVisit of Some (Inr s) \<Rightarrow> P code s | _ \<Rightarrow> False)
           | _ \<Rightarrow> False"
  obtains code cache toVisit s where
    "seeds = Inr (code, cache, toVisit)" "loop code cache toVisit = Some (Inr s)" "P code s"
proof (cases seeds)
  case (Inl e)
  with assms show ?thesis by simp
next
  case (Inr x)
  obtain code cache toVisit where x: "x = (code, cache, toVisit)" by (cases x)
  show ?thesis
  proof (cases "loop code cache toVisit")
    case None
    with assms Inr x show ?thesis by simp
  next
    case (Some y)
    with assms Inr x that show ?thesis by (cases y) auto
  qed
qed

section \<open>The installs after the main loop\<close>

text \<open>
  Claim C7. No install runs during the main loop. After it, the run installs in the
  folders that were scheduled, in the order of scheduling, up to and including the first
  one whose install exits with a non-zero code: no later install is attempted, the extra
  files are not touched, the run returns, and that code is its exit code.
\<close>

theorem installs_in_order_fail_fast:
  assumes seeds: "addPackagePaths env fs options (packagePathsToAdd packagePath options) ([], []) =
                    Inr (code, cache, toVisit)"
    and loop: "visitPackageFolders env dependencyType (optionRecursive env options)
                 (optionForceInstall env options) code
                 \<lparr>run = \<lparr>files = fs, clonedPackages = cache, events = []\<rparr>,
                  packageFolderPathsToVisit = toVisit,
                  packageFolderPathsVisited = [],
                  folderPathsToRunNPMInstallIn = [],
                  foldersUpdated = []\<rparr> = Some (Inr s)"
  shows "(\<forall>f. NpmInstall f \<notin> set (events (run s)))
     \<and> (\<forall>r. changeClonedDependenciesTo env fs packagePath dependencyType options = Some (Inr r) \<longrightarrow>
            folderPathsToRunNPMInstallIn (final r) = folderPathsToRunNPMInstallIn s
            \<and> (\<exists>extraFiles.
                  events (run (final r)) =
                    events (run s)
                    @ map NpmInstall
                        (takeWhile (\<lambda>f. npmInstall env f = 0) (folderPathsToRunNPMInstallIn s)
                         @ take 1 (dropWhile (\<lambda>f. npmInstall env f = 0) (folderPathsToRunNPMInstallIn s)))
                    @ map WriteFile extraFiles))
     \<and> (\<forall>failed later.
          dropWhile (\<lambda>f. npmInstall env f = 0) (folderPathsToRunNPMInstallIn s) = failed # later \<longrightarrow>
            npmInstall env failed \<noteq> 0
            \<and> changeClonedDependenciesTo env fs packagePath dependencyType options =
                Some (Inr \<lparr>exitCode = npmInstall env failed,
                           processExitCode =
                             (if setProcessExitCode options \<noteq> Some False then Some (npmInstall env failed)
                              else None),
                           final = s\<lparr>run := (run s)\<lparr>events := events (run s) @
                             map NpmInstall
                               (takeWhile (\<lambda>f. npmInstall env f = 0) (folderPathsToRunNPMInstallIn s)
                                @ [failed])\<rparr>\<rparr>\<rparr>))"
proof -
  have ral: "changeClonedDependenciesTo env fs packagePath dependencyType options =
               Some (finishRun env options code s)"
    using seeds loop by (simp add: changeClonedDependenciesTo_def)
  have fu:
    "finishRun env options code s =
       (case (case extraFilesToUpdate options of
                None \<Rightarrow> Inr (fst (runNPMInstalls env (folderPathsToRunNPMInstallIn s) code (events (run s))),
                             (run s)\<lparr>events := snd (runNPMInstalls env (folderPathsToRunNPMInstallIn s) code (events (run s)))\<rparr>)
              | Some extraFiles \<Rightarrow>
                  if fst (runNPMInstalls env (folderPathsToRunNPMInstallIn s) code (events (run s))) = 0
                  then updateExtraFiles env extraFiles
                         ((run s)\<lparr>events := snd (runNPMInstalls env (folderPathsToRunNPMInstallIn s) code (events (run s)))\<rparr>)
                  else Inr (fst (runNPMInstalls env (folderPathsToRunNPMInstallIn s) code (events (run s))),
                            (run s)\<lparr>events := snd (runNPMInstalls env (folderPathsToRunNPMInstallIn s) code (events (run s)))\<rparr>)) of
          Inl e \<Rightarrow> Inl e
        | Inr (exitCode2, st') \<Rightarrow>
            Inr \<lparr>exitCode = exitCode2,
                 processExitCode = (if setProcessExitCode options \<noteq> Some False then Some exitCode2 else None),
                 final = s\<lparr>run := st'\<rparr>\<rparr>)"
    by (simp add: finishRun_def split_beta Let_def)
  show ?thesis
  proof (intro conjI allI impI)
    fix f
    from visitPackageFolders_no_installs[OF loop] show "NpmInstall f \<notin> set (events (run s))"
      by auto
  next
    fix r
    assume "changeClonedDependenciesTo env fs packagePath dependencyType options = Some (Inr r)"
    with ral have f: "finishRun env options code s = Inr r" by simp
    then show "folderPathsToRunNPMInstallIn (final r) = folderPathsToRunNPMInstallIn s"
      by (rule finishRun_scheduled)
    let ?st = "(run s)\<lparr>events := snd (runNPMInstalls env (folderPathsToRunNPMInstallIn s) code (events (run s)))\<rparr>"
    from f have "run (final r) = ?st
        \<or> (\<exists>xs c. updateExtraFiles env xs ?st = Inr (c, run (final r)))"
      by (auto simp: fu split: sum.splits option.splits if_splits)
    then have "\<exists>extraFiles. events (run (final r)) = events ?st @ map WriteFile extraFiles"
    proof
      assume "run (final r) = ?st"
      then show ?thesis by (auto intro: exI[of _ "[]"])
    next
      assume "\<exists>xs c. updateExtraFiles env xs ?st = Inr (c, run (final r))"
      then obtain xs c where "updateExtraFiles env xs ?st = Inr (c, run (final r))" by blast
      from updateExtraFiles_effect[OF this] show ?thesis by blast
    qed
    then show "\<exists>extraFiles.
                    events (run (final r)) =
                      events (run s)
                      @ map NpmInstall
                          (takeWhile (\<lambda>f. npmInstall env f = 0) (folderPathsToRunNPMInstallIn s)
                           @ take 1 (dropWhile (\<lambda>f. npmInstall env f = 0) (folderPathsToRunNPMInstallIn s)))
                      @ map WriteFile extraFiles"
      by (simp add: runNPMInstalls_trace)
  next
    fix failed later
    assume d: "dropWhile (\<lambda>f. npmInstall env f = 0) (folderPathsToRunNPMInstallIn s) = failed # later"
    then show nz: "npmInstall env failed \<noteq> 0"
      by (rule dropWhile_head_fails)
    show "changeClonedDependenciesTo env fs packagePath dependencyType options =
                  Some (Inr \<lparr>exitCode = npmInstall env failed,
                             processExitCode =
                               (if setProcessExitCode options \<noteq> Some False then Some (npmInstall env failed)
                                else None),
                             final = s\<lparr>run := (run s)\<lparr>events := events (run s) @
                               map NpmInstall
                                 (takeWhile (\<lambda>f. npmInstall env f = 0) (folderPathsToRunNPMInstallIn s)
                                  @ [failed])\<rparr>\<rparr>\<rparr>)"
      unfolding ral
      using d nz by (cases "extraFilesToUpdate options") (simp_all add: fu runNPMInstalls_trace)
  qed
qed

theorem installs_in_order_fail_fast_witness:
  "\<exists>r. changeClonedDependenciesTo exEnv exFiles ''/ws/a'' Local exForceOptions = Some (Inr r)
      \<and> folderPathsToRunNPMInstallIn (final r) = [''/ws/a'', ''/ws/b'', ''/ws/c'']
      \<and> npmInstall exEnv ''/ws/a'' = 0 \<and> npmInstall exEnv ''/ws/b'' = 7
      \<and> exitCode r = 7 \<and> processExitCode r = Some 7
      \<and> events (run (final r)) =
          [LogChanging ''c'' ''^1.0.0'' ''file:/ws/c'',
           WritePackageJson ''/ws/a/package.json'', WritePackageLockJson ''/ws/a/package-lock.json'',
           LogChanging ''c'' ''^1.0.0'' ''file:/ws/c'', WritePackageJson ''/ws/b/package.json'',
           NpmInstall ''/ws/a'', NpmInstall ''/ws/b'']"
proof -
  have "case addPackagePaths exEnv exFiles exForceOptions (packagePathsToAdd ''/ws/a'' exForceOptions) ([], []) of
          Inr (code, cache, toVisit) \<Rightarrow>
            (case visitPackageFolders exEnv Local (optionRecursive exEnv exForceOptions)
                    (optionForceInstall exEnv exForceOptions) code
                    \<lparr>run = \<lparr>files = exFiles, clonedPackages = cache, events = []\<rparr>,
                     packageFolderPathsToVisit = toVisit,
                     packageFolderPathsVisited = [],
                     folderPathsToRunNPMInstallIn = [],
                     foldersUpdated = []\<rparr> of
               Some (Inr s) \<Rightarrow>
                 folderPathsToRunNPMInstallIn s = [''/ws/a'', ''/ws/b'', ''/ws/c'']
                 \<and> events (run s) =
                     [LogChanging ''c'' ''^1.0.0'' ''file:/ws/c'',
                      WritePackageJson ''/ws/a/package.json'', WritePackageLockJson ''/ws/a/package-lock.json'',
                      LogChanging ''c'' ''^1.0.0'' ''file:/ws/c'', WritePackageJson ''/ws/b/package.json'']
             | _ \<Rightarrow> False)
        | _ \<Rightarrow> False"
    by code_simp
  then obtain code cache toVisit s where
    seeds: "addPackagePaths exEnv exFiles exForceOptions (packagePathsToAdd ''/ws/a'' exForceOptions) ([], []) =
              Inr (code, cache, toVisit)" and
    loop: "visitPackageFolders exEnv Local (optionRecursive exEnv exForceOptions)
                    (optionForceInstall exEnv exForceOptions) code
                    \<lparr>run = \<lparr>files = exFiles, clonedPackages = cache, events = []\<rparr>,
                     packageFolderPathsToVisit = toVisit,
                     packageFolderPathsVisited = [],
                     folderPathsToRunNPMInstallIn = [],
                     foldersUpdated = []\<rparr> = Some (Inr s)" and
    sched: "folderPathsToRunNPMInstallIn s = [''/ws/a'', ''/ws/b'', ''/ws/c'']" and
    ev: "events (run s) =
                     [LogChanging ''c'' ''^1.0.0'' ''file:/ws/c'',
                      WritePackageJson ''/ws/a/package.json'', WritePackageLockJson ''/ws/a/package-lock.json'',
                      LogChanging ''c'' ''^1.0.0'' ''file:/ws/c'', WritePackageJson ''/ws/b/package.json'']"
    by (rule seeded_loop_cases) auto
  have d: "dropWhile (\<lambda>f. npmInstall exEnv f = 0) (folderPathsToRunNPMInstallIn s) = ''/ws/b'' # [''/ws/c'']"
    by (simp add: sched exEnv_def)
  have "case changeClonedDependenciesTo exEnv exFiles ''/ws/a'' Local exForceOptions of
          Some (Inr r) \<Rightarrow>
            exitCode r = 7 \<and> processExitCode r = Some 7
            \<and> folderPathsToRunNPMInstallIn (final r) = [''/ws/a'', ''/ws/b'', ''/ws/c'']
            \<and> [e \<leftarrow> events (run (final r)). e \<in> NpmInstall ` set (folderPathsToRunNPMInstallIn (final r))] =
                [NpmInstall ''/ws/a'', NpmInstall ''/ws/b'']
        | _ \<Rightarrow> False"
    by code_simp
  with installs_in_order_fail_fast[OF seeds loop, THEN conjunct2, THEN conjunct2, rule_format, OF d]
  show ?thesis
    by (simp add: sched ev exEnv_def exForceOptions_def exBothOptions_def exOptions_def)
qed

section \<open>The extra files\<close>

text \<open>
  Claim C8. With \<open>exitCode1\<close> the exit code and \<open>st1\<close> the state after the installs of
  a run: when \<open>exitCode1\<close> is not 0 (or no extra files are configured) the run returns
  \<open>exitCode1\<close> in the state \<open>st1\<close>, so no extra file is read or written. When it is 0
  and the first configured extra file that does not exist is \<open>missing\<close>, the run
  processes the files before it and stops with exit code 2: the files after it are not
  processed. An extra file that the pass reaches and reads is written back exactly when
  the rewritten contents differ from the original ones, and the pass goes on with the
  files after it.
\<close>

theorem extra_files_pass:
  fixes exitCode1 :: int and st1 :: RunState
  assumes seeds: "addPackagePaths env fs options (packagePathsToAdd packagePath options) ([], []) =
                    Inr (code, cache, toVisit)"
    and loop: "visitPackageFolders env dependencyType (optionRecursive env options)
                 (optionForceInstall env options) code
                 \<lparr>run = \<lparr>files = fs, clonedPackages = cache, events = []\<rparr>,
                  packageFolderPathsToVisit = toVisit,
                  packageFolderPathsVisited = [],
                  folderPathsToRunNPMInstallIn = [],
                  foldersUpdated = []\<rparr> = Some (Inr s)"
  defines "exitCode1 \<equiv> fst (runNPMInstalls env (folderPathsToRunNPMInstallIn s) code (events (run s)))"
    and "st1 \<equiv> (run s)\<lparr>events := snd (runNPMInstalls env (folderPathsToRunNPMInstallIn s) code (events (run s)))\<rparr>"
  shows "(exitCode1 \<noteq> 0 \<or> extraFilesToUpdate options = None \<longrightarrow>
            changeClonedDependenciesTo env fs packagePath dependencyType options =
              Some (Inr \<lparr>exitCode = exitCode1,
                         processExitCode =
                           (if setProcessExitCode options \<noteq> Some False then Some exitCode1 else None),
                         final = s\<lparr>run := st1\<rparr>\<rparr>))
     \<and> (\<forall>before missing later.
          exitCode1 = 0 \<and> extraFilesToUpdate options = Some (before @ missing # later)
          \<and> (\<forall>g\<in>set before. fileExistsSync (files (run s)) g)
          \<and> \<not> fileExistsSync (files (run s)) missing \<longrightarrow>
            changeClonedDependenciesTo env fs packagePath dependencyType options =
              (case updateExtraFiles env before st1 of
                 Inl e \<Rightarrow> Some (Inl e)
               | Inr (c, st') \<Rightarrow>
                   Some (Inr \<lparr>exitCode = 2,
                              processExitCode =
                                (if setProcessExitCode options \<noteq> Some False then Some 2 else None),
                              final = s\<lparr>run := st'\<rparr>\<rparr>)))
     \<and> (\<forall>before extraFile later st2 original.
          exitCode1 = 0 \<and> extraFilesToUpdate options = Some (before @ extraFile # later)
          \<and> updateExtraFiles env before st1 = Inr (0, st2)
          \<and> readFileSync (files st2) extraFile = Inr original \<longrightarrow>
            changeClonedDependenciesTo env fs packagePath dependencyType options =
              (case updateExtraFiles env later
                      (if foldl (updateStringProperty env (clonedPackages st2)) original
                            (keys (clonedPackages st2)) = original
                       then st2
                       else writeFileSync extraFile
                              (foldl (updateStringProperty env (clonedPackages st2)) original
                                 (keys (clonedPackages st2))) st2) of
                 Inl e \<Rightarrow> Some (Inl e)
               | Inr (c, st') \<Rightarrow>
                   Some (Inr \<lparr>exitCode = c,
                              processExitCode =
                                (if setProcessExitCode options \<noteq> Some False then Some c else None),
                              final = s\<lparr>run := st'\<rparr>\<rparr>)))"
proof -
  have ral: "changeClonedDependenciesTo env fs packagePath dependencyType options =
               Some (finishRun env options code s)"
    using seeds loop by (simp add: changeClonedDependenciesTo_def)
  have fu:
    "finishRun env options code s =
       (case (case extraFilesToUpdate options of
                None \<Rightarrow> Inr (fst (runNPMInstalls env (folderPathsToRunNPMInstallIn s) code (events (run s))),
                             (run s)\<lparr>events := snd (runNPMInstalls env (folderPathsToRunNPMInstallIn s) code (events (run s)))\<rparr>)
              | Some extraFiles \<Rightarrow>
                  if fst (runNPMInstalls env (folderPathsToRunNPMInstallIn s) code (events (run s))) = 0
                  then updateExtraFiles env extraFiles
                         ((run s)\<lparr>events := snd (runNPMInstalls env (folderPathsToRunNPMInstallIn s) code (events (run s)))\<rparr>)
                  else Inr (fst (runNPMInstalls env (folderPathsToRunNPMInstallIn s) code (events (run s))),
                            (run s)\<lparr>events := snd (runNPMInstalls env (folderPathsToRunNPMInstallIn s) code (events (run s)))\<rparr>)) of
          Inl e \<Rightarrow> Inl e
        | Inr (exitCode2, st') \<Rightarrow>
            Inr \<lparr>exitCode = exitCode2,
                 processExitCode = (if setProcessExitCode options \<noteq> Some False then Some exitCode2 else None),
                 final = s\<lparr>run := st'\<rparr>\<rparr>)"
    by (simp add: finishRun_def split_beta Let_def)
  show ?thesis
  proof (intro conjI allI impI)
    assume "exitCode1 \<noteq> 0 \<or> extraFilesToUpdate options = None"
    then show "changeClonedDependenciesTo env fs packagePath dependencyType options =
                Some (Inr \<lparr>exitCode = exitCode1,
                           processExitCode =
                             (if setProcessExitCode options \<noteq> Some False then Some exitCode1 else None),
                           final = s\<lparr>run := st1\<rparr>\<rparr>)"
      unfolding ral exitCode1_def st1_def
      by (cases "extraFilesToUpdate options") (auto simp: fu)
  next
    fix before missing later
    assume a: "exitCode1 = 0 \<and> extraFilesToUpdate options = Some (before @ missing # later)
            \<and> (\<forall>g\<in>set before. fileExistsSync (files (run s)) g)
            \<and> \<not> fileExistsSync (files (run s)) missing"
    then have e: "\<forall>g\<in>set before. fileExistsSync (files st1) g" "\<not> fileExistsSync (files st1) missing"
      by (simp_all add: st1_def)
    from a have f: "finishRun env options code s =
        (case updateExtraFiles env (before @ missing # later) st1 of
           Inl e \<Rightarrow> Inl e
         | Inr (exitCode2, st') \<Rightarrow>
            Inr \<lparr>exitCode = exitCode2,
                 processExitCode = (if setProcessExitCode options \<noteq> Some False then Some exitCode2 else None),
                 final = s\<lparr>run := st'\<rparr>\<rparr>)"
      by (simp add: fu exitCode1_def st1_def)
    show "changeClonedDependenciesTo env fs packagePath dependencyType options =
                (case updateExtraFiles env before st1 of
                   Inl e \<Rightarrow> Some (Inl e)
                 | Inr (c, st') \<Rightarrow>
                     Some (Inr \<lparr>exitCode = 2,
                                processExitCode =
                                  (if setProcessExitCode options \<noteq> Some False then Some 2 else None),
                                final = s\<lparr>run := st'\<rparr>\<rparr>))"
      unfolding ral f updateExtraFiles_stops_at_missing[OF e]
      by (simp split: sum.splits)
  next
    fix before extraFile later st2 original
    assume a: "exitCode1 = 0 \<and> extraFilesToUpdate options = Some (before @ extraFile # later)
            \<and> updateExtraFiles env before st1 = Inr (0, st2)
            \<and> readFileSync (files st2) extraFile = Inr original"
    then have x: "fileExistsSync (files st2) extraFile"
      using readFileSync_exists by blast
    from a have f: "finishRun env options code s =
        (case updateExtraFiles env (before @ extraFile # later) st1 of
           Inl e \<Rightarrow> Inl e
         | Inr (exitCode2, st') \<Rightarrow>
            Inr \<lparr>exitCode = exitCode2,
                 processExitCode = (if setProcessExitCode options \<noteq> Some False then Some exitCode2 else None),
                 final = s\<lparr>run := st'\<rparr>\<rparr>)"
      by (simp add: fu exitCode1_def st1_def)
    have u: "updateExtraFiles env (before @ extraFile # later) st1 =
        updateExtraFiles env later
                        (if foldl (updateStringProperty env (clonedPackages st2)) original
                              (keys (clonedPackages st2)) = original
                         then st2
                         else writeFileSync extraFile
                                (foldl (updateStringProperty env (clonedPackages st2)) original
                                   (keys (clonedPackages st2))) st2)"
      using a x by (auto simp: updateExtraFiles_append updateExtraFile_def Let_def)
    show "changeClonedDependenciesTo env fs packagePath dependencyType options =
                (case updateExtraFiles env later
                        (if foldl (updateStringProperty env (clonedPackages st2)) original
                              (keys (clonedPackages st2)) = original
                         then st2
                         else writeFileSync extraFile
                                (foldl (updateStringProperty env (clonedPackages st2)) original
                                   (keys (clonedPackages st2))) st2) of
                   Inl e \<Rightarrow> Some (Inl e)
                 | Inr (c, st') \<Rightarrow>
                     Some (Inr \<lparr>exitCode = c,
                                processExitCode =
                                  (if setProcessExitCode options \<noteq> Some False then Some c else None),
                                final = s\<lparr>run := st'\<rparr>\<rparr>))"
      unfolding ral f u
      by (simp split: sum.splits)
  qed
qed

theorem extra_files_pass_witness:
  "(\<exists>r. changeClonedDependenciesTo exRegExpEnv exFiles ''/ws/a'' Local exExtraOptions = Some (Inr r)
       \<and> exitCode r = 2 \<and> processExitCode r = Some 2
       \<and> events (run (final r)) =
           [LogChanging ''c'' ''^1.0.0'' ''file:/ws/c'',
            WritePackageJson ''/ws/a/package.json'', WritePackageLockJson ''/ws/a/package-lock.json'',
            NpmInstall ''/ws/a'', WriteFile ''/ws/versions.txt'']
       \<and> readFileSync (files (run (final r))) ''/ws/versions.txt'' = Inr ''c file:/ws/c'')
   \<and> (\<exists>r. changeClonedDependenciesTo exRegExpEnv exFiles ''/ws/b'' Local exExtraOptions = Some (Inr r)
       \<and> exitCode r = 7 \<and> processExitCode r = Some 7
       \<and> events (run (final r)) =
           [LogChanging ''c'' ''^1.0.0'' ''file:/ws/c'', WritePackageJson ''/ws/b/package.json'',
            NpmInstall ''/ws/b'']
       \<and> readFileSync (files (run (final r))) ''/ws/versions.txt'' = Inr ''c 1.0.0'')"
proof (rule conjI)
  have "case addPackagePaths exRegExpEnv exFiles exExtraOptions (packagePathsToAdd ''/ws/a'' exExtraOptions) ([], []) of
          Inr (code, cache, toVisit) \<Rightarrow>
            (case visitPackageFolders exRegExpEnv Local (optionRecursive exRegExpEnv exExtraOptions)
                    (optionForceInstall exRegExpEnv exExtraOptions) code
                    \<lparr>run = \<lparr>files = exFiles, clonedPackages = cache, events = []\<rparr>,
                     packageFolderPathsToVisit = toVisit,
                     packageFolderPathsVisited = [],
                     folderPathsToRunNPMInstallIn = [],
                     foldersUpdated = []\<rparr> of
               Some (Inr s) \<Rightarrow>
                 code = 0
                 \<and> folderPathsToRunNPMInstallIn s = [''/ws/a'']
                 \<and> events (run s) =
                     [LogChanging ''c'' ''^1.0.0'' ''file:/ws/c'',
                      WritePackageJson ''/ws/a/package.json'', WritePackageLockJson ''/ws/a/package-lock.json'']
                 \<and> clonedPackages (run s) =
                     [(''a'', Some ((newClonedPackage ''/ws/a'')\<lparr>updated := Some True\<rparr>)),
                      (''c'', Some ((newClonedPackage ''/ws/c'')\<lparr>updated := Some True,
                                                                  targetVersion := Some ''file:/ws/c''\<rparr>))]
                 \<and> fileExistsSync (files (run s)) ''/ws/versions.txt''
                 \<and> \<not> fileExistsSync (files (run s)) ''/ws/missing.txt''
                 \<and> readFileSync (files (run s)) ''/ws/versions.txt'' = Inr ''c 1.0.0''
             | _ \<Rightarrow> False)
        | _ \<Rightarrow> False"
    by code_simp
  then obtain code cache toVisit s where
    seeds: "addPackagePaths exRegExpEnv exFiles exExtraOptions (packagePathsToAdd ''/ws/a'' exExtraOptions) ([], []) =
              Inr (code, cache, toVisit)" and
    loop: "visitPackageFolders exRegExpEnv Local (optionRecursive exRegExpEnv exExtraOptions)
                    (optionForceInstall exRegExpEnv exExtraOptions) code
                    \<lparr>run = \<lparr>files = exFiles, clonedPackages = cache, events = []\<rparr>,
                     packageFolderPathsToVisit = toVisit,
                     packageFolderPathsVisited = [],
                     folderPathsToRunNPMInstallIn = [],
                     foldersUpdated = []\<rparr> = Some (Inr s)" and
    s: "code = 0" "folderPathsToRunNPMInstallIn s = [''/ws/a'']"
       "events (run s) =
                     [LogChanging ''c'' ''^1.0.0'' ''file:/ws/c'',
                      WritePackageJson ''/ws/a/package.json'', WritePackageLockJson ''/ws/a/package-lock.json'']"
       "clonedPackages (run s) =
                     [(''a'', Some ((newClonedPackage ''/ws/a'')\<lparr>updated := Some True\<rparr>)),
                      (''c'', Some ((newClonedPackage ''/ws/c'')\<lparr>updated := Some True,
                                                                  targetVersion := Some ''file:/ws/c''\<rparr>))]"
       "fileExistsSync (files (run s)) ''/ws/versions.txt''"
       "\<not> fileExistsSync (files (run s)) ''/ws/missing.txt''"
       "readFileSync (files (run s)) ''/ws/versions.txt'' = Inr ''c 1.0.0''"
    by (rule seeded_loop_cases) auto
  have i: "runNPMInstalls exRegExpEnv (folderPathsToRunNPMInstallIn s) code (events (run s)) =
             (0, events (run s) @ [NpmInstall ''/ws/a''])"
    by (simp add: s(2) exRegExpEnv_def exEnv_def)
  have h: "fst (runNPMInstalls exRegExpEnv (folderPathsToRunNPMInstallIn s) code (events (run s))) = 0
          \<and> extraFilesToUpdate exExtraOptions =
              Some ([''/ws/versions.txt''] @ ''/ws/missing.txt'' # [''/ws/a/package.json''])
          \<and> (\<forall>g\<in>set [''/ws/versions.txt'']. fileExistsSync (files (run s)) g)
          \<and> \<not> fileExistsSync (files (run s)) ''/ws/missing.txt''"
    using s(5,6) by (simp add: i exExtraOptions_def)
  have u: "updateExtraFiles exRegExpEnv [''/ws/versions.txt'']
             ((run s)\<lparr>events := events (run s) @ [NpmInstall ''/ws/a'']\<rparr>) =
           Inr (0, writeFileSync ''/ws/versions.txt'' ''c file:/ws/c''
                     ((run s)\<lparr>events := events (run s) @ [NpmInstall ''/ws/a'']\<rparr>))"
    using s(4,5,7)
    by (simp add: updateExtraFile_def keys_def updateStringProperty_def getClonedPackage_def
          newClonedPackage_def exRegExpEnv_def exEnv_def)
  from extra_files_pass[OF seeds loop, THEN conjunct2, THEN conjunct1, rule_format, OF h, unfolded i snd_conv u]
  have "changeClonedDependenciesTo exRegExpEnv exFiles ''/ws/a'' Local exExtraOptions =
          Some (Inr \<lparr>exitCode = 2,
                     processExitCode =
                       (if setProcessExitCode exExtraOptions \<noteq> Some False then Some 2 else None),
                     final = s\<lparr>run := writeFileSync ''/ws/versions.txt'' ''c file:/ws/c''
                                       ((run s)\<lparr>events := events (run s) @ [NpmInstall ''/ws/a'']\<rparr>)\<rparr>\<rparr>)"
    by simp
  moreover
  have h3: "fst (runNPMInstalls exRegExpEnv (folderPathsToRunNPMInstallIn s) code (events (run s))) = 0
          \<and> extraFilesToUpdate exExtraOptions =
              Some ([] @ ''/ws/versions.txt'' # [''/ws/missing.txt'', ''/ws/a/package.json''])
          \<and> updateExtraFiles exRegExpEnv []
                ((run s)\<lparr>events := snd (runNPMInstalls exRegExpEnv (folderPathsToRunNPMInstallIn s) code
                                           (events (run s)))\<rparr>) =
              Inr (0, (run s)\<lparr>events := events (run s) @ [NpmInstall ''/ws/a'']\<rparr>)
          \<and> readFileSync (files ((run s)\<lparr>events := events (run s) @ [NpmInstall ''/ws/a'']\<rparr>))
                ''/ws/versions.txt'' = Inr ''c 1.0.0''"
    using s(7) by (simp add: i exExtraOptions_def)
  have "\<exists>r. changeClonedDependenciesTo exRegExpEnv exFiles ''/ws/a'' Local exExtraOptions = Some (Inr r)
          \<and> events (run (final r)) = events (run s) @ [NpmInstall ''/ws/a'', WriteFile ''/ws/versions.txt'']"
    using extra_files_pass[OF seeds loop, THEN conjunct2, THEN conjunct2, rule_format, OF h3] s(4,6)
    by (simp add: keys_def updateStringProperty_def getClonedPackage_def newClonedPackage_def
          exRegExpEnv_def exEnv_def fileExistsSync_def writeFileSync_def)
  moreover
  have "case changeClonedDependenciesTo exRegExpEnv exFiles ''/ws/a'' Local exExtraOptions of
          Some (Inr r) \<Rightarrow>
            exitCode r = 2 \<and> processExitCode r = Some 2
            \<and> events (run (final r)) =
                [LogChanging ''c'' ''^1.0.0'' ''file:/ws/c'',
                 WritePackageJson ''/ws/a/package.json'', WritePackageLockJson ''/ws/a/package-lock.json'',
                 NpmInstall ''/ws/a'', WriteFile ''/ws/versions.txt'']
            \<and> readFileSync (files (run (final r))) ''/ws/versions.txt'' = Inr ''c file:/ws/c''
        | _ \<Rightarrow> False"
    by code_simp
  ultimately show "\<exists>r. changeClonedDependenciesTo exRegExpEnv exFiles ''/ws/a'' Local exExtraOptions = Some (Inr r)
       \<and> exitCode r = 2 \<and> processExitCode r = Some 2
       \<and> events (run (final r)) =
           [LogChanging ''c'' ''^1.0.0'' ''file:/ws/c'',
            WritePackageJson ''/ws/a/package.json'', WritePackageLockJson ''/ws/a/package-lock.json'',
            NpmInstall ''/ws/a'', WriteFile ''/ws/versions.txt'']
       \<and> readFileSync (files (run (final r))) ''/ws/versions.txt'' = Inr ''c file:/ws/c''"
    by (simp add: s(3) writeFileSync_def readFileSync_def exExtraOptions_def exOptions_def)
next
  have "case addPackagePaths exRegExpEnv exFiles exExtraOptions (packagePathsToAdd ''/ws/b'' exExtraOptions) ([], []) of
          Inr (code, cache, toVisit) \<Rightarrow>
            (case visitPackageFolders exRegExpEnv Local (optionRecursive exRegExpEnv exExtraOptions)
                    (optionForceInstall exRegExpEnv exExtraOptions) code
                    \<lparr>run = \<lparr>files = exFiles, clonedPackages = cache, events = []\<rparr>,
                     packageFolderPathsToVisit = toVisit,
                     packageFolderPathsVisited = [],
                     folderPathsToRunNPMInstallIn = [],
                     foldersUpdated = []\<rparr> of
               Some (Inr s) \<Rightarrow>
                 code = 0
                 \<and> folderPathsToRunNPMInstallIn s = [''/ws/b'']
                 \<and> events (run s) =
                     [LogChanging ''c'' ''^1.0.0'' ''file:/ws/c'', WritePackageJson ''/ws/b/package.json'']
                 \<and> readFileSync (files (run s)) ''/ws/versions.txt'' = Inr ''c 1.0.0''
             | _ \<Rightarrow> False)
        | _ \<Rightarrow> False"
    by code_simp
  then obtain code cache toVisit s where
    seeds: "addPackagePaths exRegExpEnv exFiles exExtraOptions (packagePathsToAdd ''/ws/b'' exExtraOptions) ([], []) =
              Inr (code, cache, toVisit)" and
    loop: "visitPackageFolders exRegExpEnv Local (optionRecursive exRegExpEnv exExtraOptions)
                    (optionForceInstall exRegExpEnv exExtraOptions) code
                    \<lparr>run = \<lparr>files = exFiles, clonedPackages = cache, events = []\<rparr>,
                     packageFolderPathsToVisit = toVisit,
                     packageFolderPathsVisited = [],
                     folderPathsToRunNPMInstallIn = [],
                     foldersUpdated = []\<rparr> = Some (Inr s)" and
    s: "code = 0" "folderPathsToRunNPMInstallIn s = [''/ws/b'']"
       "events (run s) =
                     [LogChanging ''c'' ''^1.0.0'' ''file:/ws/c'', WritePackageJson ''/ws/b/package.json'']"
       "readFileSync (files (run s)) ''/ws/versions.txt'' = Inr ''c 1.0.0''"
    by (rule seeded_loop_cases) auto
  have i: "runNPMInstalls exRegExpEnv (folderPathsToRunNPMInstallIn s) code (events (run s)) =
             (7, events (run s) @ [NpmInstall ''/ws/b''])"
    by (simp add: s(2) exRegExpEnv_def exEnv_def)
  have h: "fst (runNPMInstalls exRegExpEnv (folderPathsToRunNPMInstallIn s) code (events (run s))) \<noteq> 0
          \<or> extraFilesToUpdate exExtraOptions = None"
    by (simp add: i)
  have "case changeClonedDependenciesTo exRegExpEnv exFiles ''/ws/b'' Local exExtraOptions of
          Some (Inr r) \<Rightarrow>
            exitCode r = 7 \<and> processExitCode r = Some 7
            \<and> events (run (final r)) =
                [LogChanging ''c'' ''^1.0.0'' ''file:/ws/c'', WritePackageJson ''/ws/b/package.json'',
                 NpmInstall ''/ws/b'']
            \<and> readFileSync (files (run (final r))) ''/ws/versions.txt'' = Inr ''c 1.0.0''
        | _ \<Rightarrow> False"
    by code_simp
  with extra_files_pass[OF seeds loop, THEN conjunct1, rule_format, OF h, unfolded i fst_conv snd_conv]
  show "\<exists>r. changeClonedDependenciesTo exRegExpEnv exFiles ''/ws/b'' Local exExtraOptions = Some (Inr r)
       \<and> exitCode r = 7 \<and> processExitCode r = Some 7
       \<and> events (run (final r)) =
           [LogChanging ''c'' ''^1.0.0'' ''file:/ws/c'', WritePackageJson ''/ws/b/package.json'',
            NpmInstall ''/ws/b'']
       \<and> readFileSync (files (run (final r))) ''/ws/versions.txt'' = Inr ''c 1.0.0''"
    by (simp add: s(3,4) exExtraOptions_def exOptions_def)
qed

section \<open>The cache of findPackage\<close>

text \<open>
  Claim C6. After a call of \<open>findPackage\<close> with a name and the cache, the cache holds an
  entry for the name, a clone or \<^verbatim>\<open>undefined\<close>, and every later call with that name and
  cache returns the entry without looking at a folder, wherever it starts and whatever is
  on disk; the entries of other names are kept. A name recorded as absent is still
  recorded as absent when the main loop ends.
\<close>

theorem findPackage_caches_result:
  "(findPackage env fs packageName startPath (Some cache) = Some (Inr (result, cacheAfter, visited)) \<longrightarrow>
      (\<exists>cache'. cacheAfter = Some cache'
           \<and> map_of cache' packageName = Some result
           \<and> (\<forall>env' fs' startPath'.
                 findPackage env' fs' packageName startPath' (Some cache') = Some (Inr (result, Some cache', [])))
           \<and> (\<forall>other. hasKey cache other \<longrightarrow> map_of cache' other = map_of cache other)))
   \<and> (visitPackageFolders env dependencyType recursive' forceInstall' exitCode' s = Some (Inr s')
        \<and> map_of (clonedPackages (run s)) packageName = Some None \<longrightarrow>
          map_of (clonedPackages (run s')) packageName = Some None
          \<and> (\<forall>env' fs' startPath'.
                 findPackage env' fs' packageName startPath' (Some (clonedPackages (run s'))) =
                   Some (Inr (None, Some (clonedPackages (run s')), []))))"
proof (rule conjI[OF impI impI])
  assume a: "findPackage env fs packageName startPath (Some cache) = Some (Inr (result, cacheAfter, visited))"
  let ?cache' = "if hasKey cache packageName then cache else setKey cache packageName result"
  have after: "cacheAfter = Some ?cache'"
    using findPackage_cache_after(1)[OF a] .
  have entry: "map_of ?cache' packageName = Some result"
    using findPackage_entry(1)[of env fs packageName startPath cache result ?cache' visited] a after
    by simp
  then have key: "hasKey ?cache' packageName" and get: "getClonedPackage ?cache' packageName = result"
    by (simp_all add: hasKey_iff getClonedPackage_def)
  have again: "\<forall>env' fs' startPath'.
      findPackage env' fs' packageName startPath' (Some ?cache') = Some (Inr (result, Some ?cache', []))"
    using findPackage_hit[OF key] get by simp
  have others: "\<forall>other. hasKey cache other \<longrightarrow> map_of ?cache' other = map_of cache other"
    by (auto simp: hasKey_iff map_of_setKey)
  from after entry again others
  show "\<exists>cache'. cacheAfter = Some cache'
           \<and> map_of cache' packageName = Some result
           \<and> (\<forall>env' fs' startPath'.
                 findPackage env' fs' packageName startPath' (Some cache') = Some (Inr (result, Some cache', [])))
           \<and> (\<forall>other. hasKey cache other \<longrightarrow> map_of cache' other = map_of cache other)"
    by blast
next
  assume b: "visitPackageFolders env dependencyType recursive' forceInstall' exitCode' s = Some (Inr s')
        \<and> map_of (clonedPackages (run s)) packageName = Some None"
  then have "cacheGrows (clonedPackages (run s)) (clonedPackages (run s'))"
    using visitPackageFolders_cacheGrows by blast
  with b have absent: "map_of (clonedPackages (run s')) packageName = Some None"
    by (simp add: cacheGrows_def)
  then have "hasKey (clonedPackages (run s')) packageName"
    and "getClonedPackage (clonedPackages (run s')) packageName = None"
    by (simp_all add: hasKey_iff getClonedPackage_def)
  with findPackage_hit absent
  show "map_of (clonedPackages (run s')) packageName = Some None
          \<and> (\<forall>env' fs' startPath'.
                 findPackage env' fs' packageName startPath' (Some (clonedPackages (run s'))) =
                   Some (Inr (None, Some (clonedPackages (run s')), [])))"
    by simp
qed

theorem findPackage_caches_result_witness:
  "findPackage exEnv exFiles ''d'' ''/ws/a'' (Some [(''a'', Some (newClonedPackage ''/ws/a''))]) =
     Some (Inr (None, Some [(''a'', Some (newClonedPackage ''/ws/a'')), (''d'', None)],
                [''/ws/a'', ''/ws'', ''/ws/b'', ''/ws/c'']))
   \<and> findPackage exEnv exFiles ''d'' ''/ws/b''
         (Some [(''a'', Some (newClonedPackage ''/ws/a'')), (''d'', None)]) =
       Some (Inr (None, Some [(''a'', Some (newClonedPackage ''/ws/a'')), (''d'', None)], []))
   \<and> hasKey [(''a'', Some (newClonedPackage ''/ws/a''))] ''a''
   \<and> map_of [(''a'', Some (newClonedPackage ''/ws/a'')), (''d'', None)] ''a'' =
       Some (Some (newClonedPackage ''/ws/a''))
   \<and> (\<exists>s'. visitPackageFolders exEnv Local True False 0 exAbsent = Some (Inr s')
            \<and> map_of (clonedPackages (run exAbsent)) ''d'' = Some None
            \<and> map_of (clonedPackages (run s')) ''d'' = Some None)"
proof -
  have h1: "findPackage exEnv exFiles ''d'' ''/ws/a'' (Some [(''a'', Some (newClonedPackage ''/ws/a''))]) =
     Some (Inr (None, Some [(''a'', Some (newClonedPackage ''/ws/a'')), (''d'', None)],
                [''/ws/a'', ''/ws'', ''/ws/b'', ''/ws/c'']))"
    by code_simp
  have "returns (visitPackageFolders exEnv Local True False 0 exAbsent)"
    by code_simp
  then obtain s' where h2: "visitPackageFolders exEnv Local True False 0 exAbsent = Some (Inr s')"
    using returnsE by blast
  have h3: "map_of (clonedPackages (run exAbsent)) ''d'' = Some None"
    by (simp add: exAbsent_def)
  have h4: "hasKey [(''a'', Some (newClonedPackage ''/ws/a''))] ''a''"
    by (simp add: hasKey_def)
  note main = findPackage_caches_result
      [where env = exEnv and fs = exFiles and packageName = "''d''" and startPath = "''/ws/a''"
         and cache = "[(''a'', Some (newClonedPackage ''/ws/a''))]" and result = None
         and cacheAfter = "Some [(''a'', Some (newClonedPackage ''/ws/a'')), (''d'', None)]"
         and visited = "[''/ws/a'', ''/ws'', ''/ws/b'', ''/ws/c'']"
         and dependencyType = Local and recursive' = True and forceInstall' = False
         and exitCode' = 0 and s = exAbsent and s' = s']
  from main h1 h2 h3 h4 show ?thesis
    by auto
qed

section \<open>Resolving the latest version\<close>

text \<open>
  Claim C4. For dependency type \<^verbatim>\<open>latest\<close>, a clone that is found and has no target
  version yet: when the registry reports a (non-empty) \<^verbatim>\<open>latest\<close> tag, the target is that
  version with \<^verbatim>\<open>^\<close> in front; when it reports none, the target is the clone's
  \<^verbatim>\<open>defaultVersion\<close>; when that is missing too, the resolution is absent and
  \<open>updateDependency\<close> leaves the map of dependencies as it was.
\<close>

theorem latest_target_version:
  assumes found: "findPackage env (files st) dependencyName (path clonedPackage) (Some (clonedPackages st)) =
                    Some (Inr (Some clone, Some cache', visited))"
    and unset: "\<not> truthy (targetVersion clone)"
  shows "(\<forall>v. latestDistTag env dependencyName = Some v \<and> v \<noteq> [] \<longrightarrow>
            getDependencyTargetVersion env clonedPackage dependencyName Latest st =
              Some (Inr (Some (''^'' @ v),
                         st\<lparr>clonedPackages :=
                              setKey cache' dependencyName (Some (clone\<lparr>targetVersion := Some (''^'' @ v)\<rparr>)),
                            events := events st @ [NpmView dependencyName]\<rparr>)))
       \<and> (\<not> truthy (latestDistTag env dependencyName) \<longrightarrow>
            getDependencyTargetVersion env clonedPackage dependencyName Latest st =
              Some (Inr (defaultVersion clone,
                         st\<lparr>clonedPackages :=
                              setKey cache' dependencyName
                                (Some (clone\<lparr>targetVersion := defaultVersion clone\<rparr>)),
                            events := events st @ [NpmView dependencyName]\<rparr>)))
       \<and> (\<not> truthy (latestDistTag env dependencyName) \<and> \<not> truthy (defaultVersion clone) \<longrightarrow>
            updateDependency env clonedPackage Latest dependencyName (deps, changed, st) =
              Some (Inr (deps, changed,
                         if contains (dependenciesToIgnore clonedPackage) dependencyName then st
                         else st\<lparr>clonedPackages :=
                                   setKey cache' dependencyName
                                     (Some (clone\<lparr>targetVersion := defaultVersion clone\<rparr>)),
                                 events := events st @ [NpmView dependencyName]\<rparr>)))"
proof -
  have tagged: "getDependencyTargetVersion env clonedPackage dependencyName Latest st =
              Some (Inr (Some (''^'' @ v),
                         st\<lparr>clonedPackages :=
                              setKey cache' dependencyName (Some (clone\<lparr>targetVersion := Some (''^'' @ v)\<rparr>)),
                            events := events st @ [NpmView dependencyName]\<rparr>))"
    if "latestDistTag env dependencyName = Some v" "v \<noteq> []" for v
    using found unset that
    by (simp add: getDependencyTargetVersion_def assignTargetVersion_def)
  have untagged: "getDependencyTargetVersion env clonedPackage dependencyName Latest st =
              Some (Inr (defaultVersion clone,
                         st\<lparr>clonedPackages :=
                              setKey cache' dependencyName
                                (Some (clone\<lparr>targetVersion := defaultVersion clone\<rparr>)),
                            events := events st @ [NpmView dependencyName]\<rparr>))"
    if "\<not> truthy (latestDistTag env dependencyName)"
    using found unset that
    by (auto simp: getDependencyTargetVersion_def assignTargetVersion_def truthy_def split: option.splits)
  have unchanged: "updateDependency env clonedPackage Latest dependencyName (deps, changed, st) =
              Some (Inr (deps, changed,
                         if contains (dependenciesToIgnore clonedPackage) dependencyName then st
                         else st\<lparr>clonedPackages :=
                                   setKey cache' dependencyName
                                     (Some (clone\<lparr>targetVersion := defaultVersion clone\<rparr>)),
                                 events := events st @ [NpmView dependencyName]\<rparr>))"
    if "\<not> truthy (latestDistTag env dependencyName)" "\<not> truthy (defaultVersion clone)"
    using untagged[OF that(1)] that(2)
    by (auto simp: updateDependency_def Let_def truthy_def split: option.splits)
  from tagged untagged unchanged show ?thesis by blast
qed

theorem latest_target_version_witness:
  "findPackage exEnv (files exState) ''c'' (path (newClonedPackage ''/ws/a'')) (Some (clonedPackages exState)) =
     Some (Inr (Some (newClonedPackage ''/ws/c''), Some [(''c'', Some (newClonedPackage ''/ws/c''))],
                [''/ws/a'', ''/ws'', ''/ws/b'', ''/ws/c'']))
   \<and> \<not> truthy (targetVersion (newClonedPackage ''/ws/c''))
   \<and> latestDistTag exPublishedEnv ''c'' = Some ''1.2.3''
   \<and> getDependencyTargetVersion exPublishedEnv (newClonedPackage ''/ws/a'') ''c'' Latest exState =
       Some (Inr (Some ''^1.2.3'',
                  exState\<lparr>clonedPackages :=
                             [(''c'', Some ((newClonedPackage ''/ws/c'')\<lparr>targetVersion := Some ''^1.2.3''\<rparr>))],
                           events := [NpmView ''c'']\<rparr>))
   \<and> latestDistTag exEnv ''c'' = None
   \<and> getDependencyTargetVersion exEnv (newClonedPackage ''/ws/a'') ''c'' Latest exState =
       Some (Inr (None,
                  exState\<lparr>clonedPackages := [(''c'', Some (newClonedPackage ''/ws/c''))],
                           events := [NpmView ''c'']\<rparr>))
   \<and> updateDependency exEnv (newClonedPackage ''/ws/a'') Latest ''c'' ([(''c'', ''^1.0.0'')], [], exState) =
       Some (Inr ([(''c'', ''^1.0.0'')], [],
                  exState\<lparr>clonedPackages := [(''c'', Some (newClonedPackage ''/ws/c''))],
                           events := [NpmView ''c'']\<rparr>))"
proof -
  have f1: "findPackage exEnv exFiles ''c'' ''/ws/a'' (Some []) =
     Some (Inr (Some (newClonedPackage ''/ws/c''), Some [(''c'', Some (newClonedPackage ''/ws/c''))],
                [''/ws/a'', ''/ws'', ''/ws/b'', ''/ws/c'']))"
    by code_simp
  have f2: "findPackage exPublishedEnv exFiles ''c'' ''/ws/a'' (Some []) =
     Some (Inr (Some (newClonedPackage ''/ws/c''), Some [(''c'', Some (newClonedPackage ''/ws/c''))],
                [''/ws/a'', ''/ws'', ''/ws/b'', ''/ws/c'']))"
    by code_simp
  have h1: "findPackage exEnv (files exState) ''c'' (path (newClonedPackage ''/ws/a'')) (Some (clonedPackages exState)) =
     Some (Inr (Some (newClonedPackage ''/ws/c''), Some [(''c'', Some (newClonedPackage ''/ws/c''))],
                [''/ws/a'', ''/ws'', ''/ws/b'', ''/ws/c'']))"
    using f1 by (simp add: exState_def newClonedPackage_def)
  have h2: "findPackage exPublishedEnv (files exState) ''c'' (path (newClonedPackage ''/ws/a'')) (Some (clonedPackages exState)) =
     Some (Inr (Some (newClonedPackage ''/ws/c''), Some [(''c'', Some (newClonedPackage ''/ws/c''))],
                [''/ws/a'', ''/ws'', ''/ws/b'', ''/ws/c'']))"
    using f2 by (simp add: exState_def newClonedPackage_def)
  have u: "\<not> truthy (targetVersion (newClonedPackage ''/ws/c''))"
    by (simp add: truthy_def newClonedPackage_def)
  have t1: "latestDistTag exPublishedEnv ''c'' = Some ''1.2.3''"
    by (simp add: latestDistTag_def exPublishedEnv_def exEnv_def)
  have t2: "latestDistTag exEnv ''c'' = None"
    by (simp add: latestDistTag_def exEnv_def)
  note published = latest_target_version[OF h2 u, where deps = "[]" and changed = "[]"]
  note unpublished = latest_target_version[OF h1 u, where deps = "[(''c'', ''^1.0.0'')]" and changed = "[]"]
  from published unpublished h1 u t1 t2 show ?thesis
    by (simp add: truthy_def setKey_def newClonedPackage_def contains_def exState_def)
qed

section \<open>What updateDependencies changes\<close>

text \<open>
  Claim C10. \<open>updateDependencies\<close> neither adds nor removes a key of the map it is given.
  An entry keeps its version when its name is in
  \<^verbatim>\<open>dependenciesToIgnore\<close> of the package, and when resolving its target version gives
  nothing. The returned list holds, once each, exactly the names whose version was
  replaced. For an undefined map nothing is returned as changed.
\<close>

theorem updateDependencies_frame:
  assumes "updateDependencies env clonedPackage deps dependencyType st = Some (Inr (deps', changed, st'))"
  shows "(deps = None \<longrightarrow> deps' = None \<and> changed = [])
     \<and> (\<forall>d. deps = Some d \<longrightarrow>
          (\<exists>d'. deps' = Some d' \<and> keys d' = keys d
             \<and> (\<forall>n. contains (dependenciesToIgnore clonedPackage) n \<longrightarrow> map_of d' n = map_of d n)
             \<and> (\<forall>n r st''.
                   getDependencyTargetVersion env clonedPackage n dependencyType st' = Some (Inr (r, st''))
                   \<and> \<not> truthy r \<longrightarrow> map_of d' n = map_of d n)
             \<and> distinct changed
             \<and> set changed = {n. map_of d' n \<noteq> map_of d n}))"
  using assms(1)
proof (cases rule: updateDependencies_cases)
  case undefined
  then show ?thesis by simp
next
  case (defined d d')
  have k: "keys d' = keys d"
    using updateDependenciesLoop_keys[OF defined(3)] by simp
  from updateDependenciesLoop_changes[OF defined(3), of "{}"] have
    fr: "distinct changed"
        "\<forall>n\<in>set changed. \<not> contains (dependenciesToIgnore clonedPackage) n \<and> map_of d' n \<noteq> map_of d n
              \<and> (\<exists>c. map_of (clonedPackages st') n = Some (Some c) \<and> truthy (targetVersion c)
                      \<and> map_of d' n = targetVersion c)"
        "\<forall>n. n \<notin> set changed \<longrightarrow> map_of d' n = map_of d n"
    by auto
  have ign: "\<forall>n. contains (dependenciesToIgnore clonedPackage) n \<longrightarrow> map_of d' n = map_of d n"
    using fr(2,3) by blast
  have res: "\<forall>n r st''.
      getDependencyTargetVersion env clonedPackage n dependencyType st' = Some (Inr (r, st''))
      \<and> \<not> truthy r \<longrightarrow> map_of d' n = map_of d n"
  proof (intro allI impI)
    fix n r st''
    assume a: "getDependencyTargetVersion env clonedPackage n dependencyType st' = Some (Inr (r, st''))
               \<and> \<not> truthy r"
    show "map_of d' n = map_of d n"
    proof (cases "n \<in> set changed")
      case False
      with fr(3) show ?thesis by simp
    next
      case True
      with fr(2) obtain c where c: "map_of (clonedPackages st') n = Some (Some c)" "truthy (targetVersion c)"
        by blast
      from getDependencyTargetVersion_cached[OF c, of env clonedPackage dependencyType] a c(2)
      show ?thesis by simp
    qed
  qed
  have chg: "set changed = {n. map_of d' n \<noteq> map_of d n}"
    using fr(2,3) by blast
  from defined(1,2) k fr(1) ign res chg show ?thesis by simp
qed

theorem updateDependencies_frame_witness:
  "\<exists>st'. updateDependencies exEnv (newClonedPackage ''/ws/a'')
               (Some [(''c'', ''^1.0.0''), (''x'', ''2.0.0'')]) Local exState =
             Some (Inr (Some [(''c'', ''file:/ws/c''), (''x'', ''2.0.0'')], [''c''], st'))
           \<and> keys [(''c'', ''file:/ws/c''), (''x'', ''2.0.0'')] = keys [(''c'', ''^1.0.0''), (''x'', ''2.0.0'')]
           \<and> set [''c''] =
               {n. map_of [(''c'', ''file:/ws/c''), (''x'', ''2.0.0'')] n
                     \<noteq> map_of [(''c'', ''^1.0.0''), (''x'', ''2.0.0'')] n}"
proof -
  have "case updateDependencies exEnv (newClonedPackage ''/ws/a'')
               (Some [(''c'', ''^1.0.0''), (''x'', ''2.0.0'')]) Local exState of
          Some (Inr (deps', changed, st')) \<Rightarrow>
            deps' = Some [(''c'', ''file:/ws/c''), (''x'', ''2.0.0'')] \<and> changed = [''c'']
        | _ \<Rightarrow> False"
    by code_simp
  then obtain st' where
    r: "updateDependencies exEnv (newClonedPackage ''/ws/a'')
               (Some [(''c'', ''^1.0.0''), (''x'', ''2.0.0'')]) Local exState =
             Some (Inr (Some [(''c'', ''file:/ws/c''), (''x'', ''2.0.0'')], [''c''], st'))"
    by (auto split: option.splits sum.splits)
  from updateDependencies_frame[OF r] r show ?thesis
    by (auto simp: keys_def)
qed
section \<open>The folder search terminates\<close>



section \<open>A requested path without a manifest\<close>

text \<open>
  Claim C3. When some requested path has no \<^verbatim>\<open>package.json\<close> at or above it, the run
  does not diverge, and unless reading a manifest throws it returns exit code 1: the
  main loop visits no folder, no file is written and nothing else is done. When the
  manifests that are found can be read, it returns. With two requested paths of which
  the second has no manifest, the manifest of the first is as it was.
\<close>

theorem missing_manifest_aborts:
  assumes "\<exists>p\<in>set (packagePathsToAdd packagePath options). \<not> truthy (findPackageJsonFileSync env p)"
  shows "((\<exists>e. changeClonedDependenciesTo env fs packagePath dependencyType options = Some (Inl e))
          \<or> (\<exists>r. changeClonedDependenciesTo env fs packagePath dependencyType options = Some (Inr r)
                \<and> exitCode r = 1
                \<and> packageFolderPathsVisited (final r) = []
                \<and> foldersUpdated (final r) = []
                \<and> files (run (final r)) = fs
                \<and> events (run (final r)) = []))
       \<and> ((\<forall>p q. findPackageJsonFileSync env p = Some q \<longrightarrow>
                  (\<exists>packageJson. fs q = Some (PackageJsonFile packageJson))) \<longrightarrow>
            (\<exists>r. changeClonedDependenciesTo env fs packagePath dependencyType options = Some (Inr r)
                \<and> exitCode r = 1
                \<and> packageFolderPathsVisited (final r) = []
                \<and> foldersUpdated (final r) = []
                \<and> files (run (final r)) = fs
                \<and> events (run (final r)) = []))"
proof (rule conjI[OF _ impI])
  from addPackagePaths_missing_cases[OF assms, of fs options "[]" "[]"]
  show "(\<exists>e. changeClonedDependenciesTo env fs packagePath dependencyType options = Some (Inl e))
          \<or> (\<exists>r. changeClonedDependenciesTo env fs packagePath dependencyType options = Some (Inr r)
                \<and> exitCode r = 1
                \<and> packageFolderPathsVisited (final r) = []
                \<and> foldersUpdated (final r) = []
                \<and> files (run (final r)) = fs
                \<and> events (run (final r)) = [])"
  proof
    assume "\<exists>e. addPackagePaths env fs options (packagePathsToAdd packagePath options) ([], []) = Inl e"
    then show ?thesis by (auto simp: changeClonedDependenciesTo_def)
  next
    assume "\<exists>cache' toVisit'.
      addPackagePaths env fs options (packagePathsToAdd packagePath options) ([], []) = Inr (1, cache', toVisit')"
    then show ?thesis using aborted_run by blast
  qed
next
  assume "\<forall>p q. findPackageJsonFileSync env p = Some q \<longrightarrow>
            (\<exists>packageJson. fs q = Some (PackageJsonFile packageJson))"
  from addPackagePaths_missing[OF assms this, of options "[]" "[]"]
  show "\<exists>r. changeClonedDependenciesTo env fs packagePath dependencyType options = Some (Inr r)
                \<and> exitCode r = 1
                \<and> packageFolderPathsVisited (final r) = []
                \<and> foldersUpdated (final r) = []
                \<and> files (run (final r)) = fs
                \<and> events (run (final r)) = []"
    using aborted_run by blast
qed

theorem missing_manifest_aborts_witness:
  "packagePathsToAdd ''/ws/a'' exMissingOptions = [''/ws/a'', ''/elsewhere'']
   \<and> truthy (findPackageJsonFileSync exEnv ''/ws/a'')
   \<and> \<not> truthy (findPackageJsonFileSync exEnv ''/elsewhere'')
   \<and> (\<exists>r. changeClonedDependenciesTo exEnv exFiles ''/ws/a'' Local exMissingOptions = Some (Inr r)
          \<and> exitCode r = 1
          \<and> packageFolderPathsVisited (final r) = []
          \<and> files (run (final r)) ''/ws/a/package.json'' = exFiles ''/ws/a/package.json''
          \<and> events (run (final r)) = [])"
proof -
  have p: "packagePathsToAdd ''/ws/a'' exMissingOptions = [''/ws/a'', ''/elsewhere'']"
    by (simp add: packagePathsToAdd_def exMissingOptions_def exOptions_def)
  have t: "truthy (findPackageJsonFileSync exEnv ''/ws/a'')"
          "\<not> truthy (findPackageJsonFileSync exEnv ''/elsewhere'')"
    by (simp_all add: truthy_def exEnv_def)
  have h1: "\<exists>p\<in>set (packagePathsToAdd ''/ws/a'' exMissingOptions). \<not> truthy (findPackageJsonFileSync exEnv p)"
    using p t by simp
  have h2: "\<forall>p q. findPackageJsonFileSync exEnv p = Some q \<longrightarrow>
              (\<exists>packageJson. exFiles q = Some (PackageJsonFile packageJson))"
    by (auto simp: exEnv_def exFiles_def split: if_splits)
  from missing_manifest_aborts[OF h1, of exFiles Local, THEN conjunct2, THEN mp, OF h2] p t
  show ?thesis
    by auto
qed

section \<open>Target versions are resolved once\<close>

text \<open>
  Claim C1, as the code has it. A target version that has been set (to a non-empty
  string) is never recomputed: \<open>getDependencyTargetVersion\<close> returns it without a query
  and without changing the state, whatever the dependency type. So in a run the
  registry is queried at most once for a name whose clone ends with a target version,
  and all dependencies changed for one name are changed to the same version string.
  When the registry has no \<^verbatim>\<open>latest\<close> tag for a name and its clone has neither a target
  version nor a default version, every resolution of the name with type \<^verbatim>\<open>latest\<close>
  queries the registry once more, returns nothing and leaves the clone without a target
  version, so that the same holds at the next reference to the name.
\<close>

theorem target_version_resolved_once:
  assumes "changeClonedDependenciesTo env fs packagePath dependencyType options = Some (Inr r)"
  shows "(\<forall>n c. map_of (clonedPackages (run (final r))) n = Some (Some c) \<and> truthy (targetVersion c) \<longrightarrow>
            count_list (events (run (final r))) (NpmView n) \<le> 1)
       \<and> (\<forall>n old v old' v'.
            LogChanging n old v \<in> set (events (run (final r)))
            \<and> LogChanging n old' v' \<in> set (events (run (final r))) \<longrightarrow> v = v')
       \<and> (\<forall>st n c requester ty.
            map_of (clonedPackages st) n = Some (Some c) \<and> truthy (targetVersion c) \<longrightarrow>
            getDependencyTargetVersion env requester n ty st = Some (Inr (targetVersion c, st)))
       \<and> (\<forall>st n c requester.
            map_of (clonedPackages st) n = Some (Some c) \<and> \<not> truthy (targetVersion c)
            \<and> \<not> truthy (latestDistTag env n) \<and> \<not> truthy (defaultVersion c) \<longrightarrow>
            (\<exists>c' st'.
                getDependencyTargetVersion env requester n Latest st = Some (Inr (targetVersion c', st'))
              \<and> events st' = events st @ [NpmView n]
              \<and> files st' = files st
              \<and> map_of (clonedPackages st') n = Some (Some c')
              \<and> (\<forall>m. m \<noteq> n \<longrightarrow> map_of (clonedPackages st') m = map_of (clonedPackages st) m)
              \<and> \<not> truthy (targetVersion c')
              \<and> defaultVersion c' = defaultVersion c))"
proof (intro conjI allI impI)
  have inv: "runInv env dependencyType (run (final r))"
    using changeClonedDependenciesTo_runInv[OF assms] .
  {
    fix n c
    assume a: "map_of (clonedPackages (run (final r))) n = Some (Some c) \<and> truthy (targetVersion c)"
    show "count_list (events (run (final r))) (NpmView n) \<le> 1"
    proof (cases "NpmView n \<in> set (events (run (final r)))")
      case False
      then show ?thesis by (simp add: count_list_0_iff)
    next
      case True
      with inv a show ?thesis
        by (auto simp: runInv_def queriesConsistent_def)
    qed
  next
    fix n old v old' v'
    assume "LogChanging n old v \<in> set (events (run (final r)))
            \<and> LogChanging n old' v' \<in> set (events (run (final r)))"
    with inv show "v = v'"
      unfolding runInv_def changesConsistent_def by (metis option.inject)
  next
    fix st :: RunState and n c requester ty
    assume "map_of (clonedPackages st) n = Some (Some c) \<and> truthy (targetVersion c)"
    then show "getDependencyTargetVersion env requester n ty st = Some (Inr (targetVersion c, st))"
      by (simp add: getDependencyTargetVersion_cached)
  next
    fix st :: RunState and n c requester
    assume a: "map_of (clonedPackages st) n = Some (Some c) \<and> \<not> truthy (targetVersion c)
            \<and> \<not> truthy (latestDistTag env n) \<and> \<not> truthy (defaultVersion c)"
    let ?c = "c\<lparr>targetVersion := defaultVersion c\<rparr>"
    let ?st = "st\<lparr>clonedPackages := setKey (clonedPackages st) n (Some ?c),
                   events := events st @ [NpmView n]\<rparr>"
    from a have "hasKey (clonedPackages st) n" "getClonedPackage (clonedPackages st) n = Some c"
      by (simp_all add: hasKey_iff getClonedPackage_def)
    with a have g: "getDependencyTargetVersion env requester n Latest st = Some (Inr (targetVersion ?c, ?st))"
      by (auto simp: getDependencyTargetVersion_def findPackage_hit assignTargetVersion_def truthy_def
               split: option.splits)
    have "events ?st = events st @ [NpmView n]" "files ?st = files st"
      "map_of (clonedPackages ?st) n = Some (Some ?c)"
      "\<forall>m. m \<noteq> n \<longrightarrow> map_of (clonedPackages ?st) m = map_of (clonedPackages st) m"
      "\<not> truthy (targetVersion ?c)" "defaultVersion ?c = defaultVersion c"
      using a by (simp_all add: map_of_setKey)
    with g show "\<exists>c' st'.
                getDependencyTargetVersion env requester n Latest st = Some (Inr (targetVersion c', st'))
              \<and> events st' = events st @ [NpmView n]
              \<and> files st' = files st
              \<and> map_of (clonedPackages st') n = Some (Some c')
              \<and> (\<forall>m. m \<noteq> n \<longrightarrow> map_of (clonedPackages st') m = map_of (clonedPackages st) m)
              \<and> \<not> truthy (targetVersion c')
              \<and> defaultVersion c' = defaultVersion c"
      by blast
  }
qed

theorem target_version_resolved_once_witness:
  "(\<exists>r. changeClonedDependenciesTo exPublishedEnv exFiles ''/ws/a'' Latest exBothOptions = Some (Inr r)
      \<and> events (run (final r)) =
          [NpmView ''c'', LogChanging ''c'' ''^1.0.0'' ''^1.2.3'',
           WritePackageJson ''/ws/a/package.json'', WritePackageLockJson ''/ws/a/package-lock.json'',
           LogChanging ''c'' ''^1.0.0'' ''^1.2.3'', WritePackageJson ''/ws/b/package.json'',
           NpmInstall ''/ws/a'', NpmInstall ''/ws/b'']
      \<and> map_of (clonedPackages (run (final r))) ''c'' =
          Some (Some ((newClonedPackage ''/ws/c'')\<lparr>updated := Some True, targetVersion := Some ''^1.2.3''\<rparr>))
      \<and> count_list (events (run (final r))) (NpmView ''c'') \<le> 1)
   \<and> (\<exists>r. changeClonedDependenciesTo exEnv exFiles ''/ws/a'' Latest exBothOptions = Some (Inr r)
      \<and> map_of (clonedPackages (run (final r))) ''c'' = Some (Some ((newClonedPackage ''/ws/c'')\<lparr>updated := Some True\<rparr>))
      \<and> \<not> truthy (latestDistTag exEnv ''c'')
      \<and> (\<exists>version st'.
            getDependencyTargetVersion exEnv (newClonedPackage ''/ws/a'') ''c'' Latest (run (final r)) =
              Some (Inr (version, st'))
          \<and> \<not> truthy version
          \<and> events st' = events (run (final r)) @ [NpmView ''c'']))"
proof (rule conjI)
  have "returns (changeClonedDependenciesTo exPublishedEnv exFiles ''/ws/a'' Latest exBothOptions)"
    by code_simp
  then obtain r where
    r: "changeClonedDependenciesTo exPublishedEnv exFiles ''/ws/a'' Latest exBothOptions = Some (Inr r)"
    using returnsE by blast
  have "resultEvents (changeClonedDependenciesTo exPublishedEnv exFiles ''/ws/a'' Latest exBothOptions) =
          [NpmView ''c'', LogChanging ''c'' ''^1.0.0'' ''^1.2.3'',
           WritePackageJson ''/ws/a/package.json'', WritePackageLockJson ''/ws/a/package-lock.json'',
           LogChanging ''c'' ''^1.0.0'' ''^1.2.3'', WritePackageJson ''/ws/b/package.json'',
           NpmInstall ''/ws/a'', NpmInstall ''/ws/b'']"
    by code_simp
  with r have e: "events (run (final r)) =
          [NpmView ''c'', LogChanging ''c'' ''^1.0.0'' ''^1.2.3'',
           WritePackageJson ''/ws/a/package.json'', WritePackageLockJson ''/ws/a/package-lock.json'',
           LogChanging ''c'' ''^1.0.0'' ''^1.2.3'', WritePackageJson ''/ws/b/package.json'',
           NpmInstall ''/ws/a'', NpmInstall ''/ws/b'']"
    by (simp add: resultEvents_def)
  have "map_of (case changeClonedDependenciesTo exPublishedEnv exFiles ''/ws/a'' Latest exBothOptions of
                  Some (Inr r) \<Rightarrow> clonedPackages (run (final r)) | _ \<Rightarrow> []) ''c'' =
          Some (Some ((newClonedPackage ''/ws/c'')\<lparr>updated := Some True, targetVersion := Some ''^1.2.3''\<rparr>))"
    by code_simp
  with r have c: "map_of (clonedPackages (run (final r))) ''c'' =
          Some (Some ((newClonedPackage ''/ws/c'')\<lparr>updated := Some True, targetVersion := Some ''^1.2.3''\<rparr>))"
    by simp
  have t: "truthy (targetVersion ((newClonedPackage ''/ws/c'')\<lparr>updated := Some True, targetVersion := Some ''^1.2.3''\<rparr>))"
    by (simp add: truthy_def)
  from target_version_resolved_once[OF r, THEN conjunct1, rule_format, OF conjI[OF c t]] r e c
  show "\<exists>r. changeClonedDependenciesTo exPublishedEnv exFiles ''/ws/a'' Latest exBothOptions = Some (Inr r)
      \<and> events (run (final r)) =
          [NpmView ''c'', LogChanging ''c'' ''^1.0.0'' ''^1.2.3'',
           WritePackageJson ''/ws/a/package.json'', WritePackageLockJson ''/ws/a/package-lock.json'',
           LogChanging ''c'' ''^1.0.0'' ''^1.2.3'', WritePackageJson ''/ws/b/package.json'',
           NpmInstall ''/ws/a'', NpmInstall ''/ws/b'']
      \<and> map_of (clonedPackages (run (final r))) ''c'' =
          Some (Some ((newClonedPackage ''/ws/c'')\<lparr>updated := Some True, targetVersion := Some ''^1.2.3''\<rparr>))
      \<and> count_list (events (run (final r))) (NpmView ''c'') \<le> 1"
    by blast
next
  have "returns (changeClonedDependenciesTo exEnv exFiles ''/ws/a'' Latest exBothOptions)"
    by code_simp
  then obtain r where
    r: "changeClonedDependenciesTo exEnv exFiles ''/ws/a'' Latest exBothOptions = Some (Inr r)"
    using returnsE by blast
  have "map_of (case changeClonedDependenciesTo exEnv exFiles ''/ws/a'' Latest exBothOptions of
                  Some (Inr r) \<Rightarrow> clonedPackages (run (final r)) | _ \<Rightarrow> []) ''c'' =
          Some (Some ((newClonedPackage ''/ws/c'')\<lparr>updated := Some True\<rparr>))"
    by code_simp
  with r have c: "map_of (clonedPackages (run (final r))) ''c'' =
          Some (Some ((newClonedPackage ''/ws/c'')\<lparr>updated := Some True\<rparr>))"
    by simp
  have l: "\<not> truthy (latestDistTag exEnv ''c'')"
    by (simp add: latestDistTag_def exEnv_def truthy_def)
  have h: "map_of (clonedPackages (run (final r))) ''c'' =
             Some (Some ((newClonedPackage ''/ws/c'')\<lparr>updated := Some True\<rparr>))
           \<and> \<not> truthy (targetVersion ((newClonedPackage ''/ws/c'')\<lparr>updated := Some True\<rparr>))
           \<and> \<not> truthy (latestDistTag exEnv ''c'')
           \<and> \<not> truthy (defaultVersion ((newClonedPackage ''/ws/c'')\<lparr>updated := Some True\<rparr>))"
    using c l by (simp add: newClonedPackage_def truthy_def)
  from target_version_resolved_once[OF r, THEN conjunct2, THEN conjunct2, THEN conjunct2, rule_format, OF h,
         of "newClonedPackage ''/ws/a''"] r c l
  show "\<exists>r. changeClonedDependenciesTo exEnv exFiles ''/ws/a'' Latest exBothOptions = Some (Inr r)
      \<and> map_of (clonedPackages (run (final r))) ''c'' = Some (Some ((newClonedPackage ''/ws/c'')\<lparr>updated := Some True\<rparr>))
      \<and> \<not> truthy (latestDistTag exEnv ''c'')
      \<and> (\<exists>version st'.
            getDependencyTargetVersion exEnv (newClonedPackage ''/ws/a'') ''c'' Latest (run (final r)) =
              Some (Inr (version, st'))
          \<and> \<not> truthy version
          \<and> events st' = events (run (final r)) @ [NpmView ''c''])"
    by blast
qed

text \<open>
  The claim as stated fails: \<^verbatim>\<open>a\<close> and \<^verbatim>\<open>b\<close> are both processed and both depend on the
  clone \<^verbatim>\<open>c\<close>, which the registry does not know and which has no default version; the
  registry is queried for \<^verbatim>\<open>c\<close> twice.
\<close>

theorem registry_queried_twice_counterexample:
  "resultVisited (changeClonedDependenciesTo exEnv exFiles ''/ws/a'' Latest exBothOptions) =
     [''/ws/a'', ''/ws/b'', ''/ws/c'']
   \<and> resultEvents (changeClonedDependenciesTo exEnv exFiles ''/ws/a'' Latest exBothOptions) =
     [NpmView ''c'', NpmView ''c'']"
  by code_simp

section \<open>Folders visited by the main loop\<close>

text \<open>
  Claim C2 at a failing input. The package path \<^verbatim>\<open>/ws/a\<close> is also listed in
  \<^verbatim>\<open>packageFolders\<close> (which is how it gets a configuration): the loop over the requested
  paths queues its folder twice, and the main loop visits it twice.
\<close>

theorem requested_twice_visited_twice:
  "resultVisited (changeClonedDependenciesTo exEnv exFiles ''/ws/a'' Local exTwiceOptions) =
     [''/ws/a'', ''/ws/a'', ''/ws/c'']"
  by code_simp

section \<open>Manifests and lock files are written only for changes\<close>

text \<open>
  Claim C5. \<open>foldersUpdated\<close> lists the folders the main loop processed, each with the
  names it changed. The manifests written in a run are exactly those of the folders
  processed with a change, one write for each such visit; the lock files written are
  those that exist beside such a manifest. A folder processed without a change has
  neither file written. No manifest is written twice, and no folder is processed with a
  change twice: a manifest that was written is settled, so that a second visit of its
  folder changes nothing.
\<close>

theorem manifest_written_only_when_changed:
  assumes "changeClonedDependenciesTo env fs packagePath dependencyType options = Some (Inr r)"
  shows "map fst (foldersUpdated (final r)) = packageFolderPathsVisited (final r)
       \<and> manifestWrites (events (run (final r))) =
           [joinPath env folder ''package.json''.
              (folder, changed) \<leftarrow> foldersUpdated (final r), changed \<noteq> []]
       \<and> lockWrites (events (run (final r))) =
           [joinPath env folder ''package-lock.json''.
              (folder, changed) \<leftarrow> foldersUpdated (final r), changed \<noteq> [],
              fileExistsSync fs (joinPath env folder ''package-lock.json'')]
       \<and> distinct (manifestWrites (events (run (final r))))
       \<and> distinct [folder. (folder, changed) \<leftarrow> foldersUpdated (final r), changed \<noteq> []]"
  using assms
proof (cases rule: changeClonedDependenciesTo_cases)
  case (1 code cache toVisit s)
  let ?s0 = "\<lparr>run = \<lparr>files = fs, clonedPackages = cache, events = []\<rparr>,
           packageFolderPathsToVisit = toVisit, packageFolderPathsVisited = [],
           folderPathsToRunNPMInstallIn = [], foldersUpdated = []\<rparr>"
  have "writesFollowChanges env fs ?s0"
    by (simp add: writesFollowChanges_def)
  from visitPackageFolders_writesFollowChanges[OF 1(2) this]
  have w: "writesFollowChanges env fs s" .
  have "writtenSettled env dependencyType (run ?s0)"
    by (simp add: writtenSettled_def)
  from visitPackageFolders_writtenSettled[OF 1(2) this]
  have d: "distinct (manifestWrites (events (run s)))"
    by (simp add: writtenSettled_def)
  from finishRun_effect[OF 1(3)] obtain installed ws where
    f: "events (run (final r)) = events (run s) @ map NpmInstall installed @ map WriteFile ws"
       "packageFolderPathsVisited (final r) = packageFolderPathsVisited s"
       "foldersUpdated (final r) = foldersUpdated s"
    by auto
  have m: "manifestWrites (events (run (final r))) =
           [joinPath env folder ''package.json''.
              (folder, changed) \<leftarrow> foldersUpdated (final r), changed \<noteq> []]"
    using w f by (simp add: writesFollowChanges_def)
  have dm: "distinct (manifestWrites (events (run (final r))))"
    using d f by simp
  then have "distinct [folder. (folder, changed) \<leftarrow> foldersUpdated (final r), changed \<noteq> []]"
    unfolding m changed_folder_paths by (simp only: distinct_map)
  with w f m dm show ?thesis
    by (simp add: writesFollowChanges_def)
qed

theorem manifest_written_only_when_changed_witness:
  "\<exists>r. changeClonedDependenciesTo exEnv exFiles ''/ws/a'' Local exTwiceOptions = Some (Inr r)
      \<and> foldersUpdated (final r) = [(''/ws/a'', [''c'']), (''/ws/a'', []), (''/ws/c'', [])]
      \<and> packageFolderPathsVisited (final r) = [''/ws/a'', ''/ws/a'', ''/ws/c'']
      \<and> manifestWrites (events (run (final r))) = [''/ws/a/package.json'']
      \<and> lockWrites (events (run (final r))) = [''/ws/a/package-lock.json'']"
proof -
  have "returns (changeClonedDependenciesTo exEnv exFiles ''/ws/a'' Local exTwiceOptions)"
    by code_simp
  then obtain r where
    r: "changeClonedDependenciesTo exEnv exFiles ''/ws/a'' Local exTwiceOptions = Some (Inr r)"
    using returnsE by blast
  have "(case changeClonedDependenciesTo exEnv exFiles ''/ws/a'' Local exTwiceOptions of
           Some (Inr r) \<Rightarrow> foldersUpdated (final r) | _ \<Rightarrow> []) =
          [(''/ws/a'', [''c'']), (''/ws/a'', []), (''/ws/c'', [])]"
    by code_simp
  with r have u: "foldersUpdated (final r) = [(''/ws/a'', [''c'']), (''/ws/a'', []), (''/ws/c'', [])]"
    by simp
  have j: "joinPath exEnv ''/ws/a'' ''package.json'' = ''/ws/a/package.json''"
    "joinPath exEnv ''/ws/a'' ''package-lock.json'' = ''/ws/a/package-lock.json''"
    "fileExistsSync exFiles ''/ws/a/package-lock.json''"
    by (simp_all add: exEnv_def exFiles_def fileExistsSync_def)
  from manifest_written_only_when_changed[OF r] r u j show ?thesis
    by simp
qed

end
